theory Spec2Isabelle
  imports Complex_Main "HOL-Library.AList" "HOL-Library.List_Lexorder" "HOL-Library.Char_ord"
begin

section \<open>The off-side tokenizer (osp.py)\<close>

text \<open>
  Characters are code points below 256 and a line is a \<^typ>\<open>string\<close>. Python integers are
  \<^typ>\<open>int\<close>. Every exception the code can raise is a value of \<open>error\<close>; the
  \<open>ValueError\<close>s are told apart by what raised them.
\<close>

datatype token = INDENT | DEDENT | Content string

datatype value_error =
    NoOuterIndentLevel int "int list"
  | CannotCalculateSpan string
  | InvalidFloat string
  | InvalidInt string
  | EmptySequence

datatype error =
    ValueError value_error
  | IndexError
  | TypeError
  | AttributeError string
  | StopIteration
  | RecursionError

text \<open>\<open>str.isspace\<close> on code points below 256; \<open>strip\<close> and \<open>split\<close> use it.\<close>

definition isspace :: "char \<Rightarrow> bool" where
  "isspace c = (of_char c \<in> {9::nat, 10, 11, 12, 13, 28, 29, 30, 31, 32, 133, 160})"

definition strip :: "string \<Rightarrow> string" where
  "strip s = rev (dropWhile isspace (rev (dropWhile isspace s)))"

text \<open>\<open>LWS = re.compile(r'[ \t]*')\<close>: the leading run of spaces and tabs.\<close>

definition lws_char :: "char \<Rightarrow> bool" where
  "lws_char c = (c = CHR '' '' \<or> c = CHR 0x09)"

definition lws :: "string \<Rightarrow> string" where
  "lws line = takeWhile lws_char line"

definition count_char :: "char \<Rightarrow> string \<Rightarrow> int" where
  "count_char c s = int (length (filter (\<lambda>x. x = c) s))"

text \<open>
  Lines 14 to 28 of \<open>tokenize\<close>: the level of a line and the new value of
  \<open>only_tabbed\<close>. \<open>tabs\<close> is the keyword argument (\<open>None\<close> is allowed by the code).
\<close>

definition line_level :: "int option \<Rightarrow> bool \<Rightarrow> string \<Rightarrow> error + (int \<times> bool)" where
  "line_level tabs only_tabbed line =
     (let span = lws line in
      if span = [] then Inr (0, only_tabbed)
      else
        let only_tabbed' = (if CHR '' '' \<in> set span then False else only_tabbed);
            t = (if only_tabbed' then Some 1 else tabs);
            lev = count_char (CHR '' '') span
        in if CHR 0x09 \<in> set span then
             (case t of
                None \<Rightarrow> Inl (ValueError (CannotCalculateSpan span))
              | Some tw \<Rightarrow> Inr (lev + count_char (CHR 0x09) span * tw, only_tabbed'))
           else Inr (lev, only_tabbed'))"

text \<open>
  The level stack is a Python list with its top at the end. The \<open>while\<close> loop of lines
  34 to 36 pops while the stack is not empty and its top exceeds \<open>lev\<close>, yielding one
  \<open>DEDENT\<close> for each level popped.
\<close>

function pop_levels :: "int \<Rightarrow> int list \<Rightarrow> token list \<Rightarrow> int list \<times> token list" where
  "pop_levels lev lev_stack out =
     (if lev_stack \<noteq> [] \<and> last lev_stack > lev
      then pop_levels lev (butlast lev_stack) (out @ [DEDENT])
      else (lev_stack, out))"
  by pat_completeness auto
termination
  by (relation "measure (\<lambda>(lev, lev_stack, out). length lev_stack)") auto

declare pop_levels.simps [simp del]

text \<open>
  Lines 30 to 38: the tokens yielded for a level and the new stack, or the exception
  raised after those tokens. \<open>lev_stack[-1]\<close> on an empty list raises \<open>IndexError\<close>.
\<close>

definition dent :: "int \<Rightarrow> int list \<Rightarrow> token list \<times> (error + int list)" where
  "dent lev lev_stack =
     (if lev_stack = [] then ([], Inl IndexError)
      else if lev > last lev_stack then ([INDENT], Inr (lev_stack @ [lev]))
      else if lev < last lev_stack then
        (case pop_levels lev lev_stack [] of (st, out) \<Rightarrow>
           if st = [] then (out, Inl IndexError)
           else if last st < lev then (out, Inl (ValueError (NoOuterIndentLevel lev st)))
           else (out, Inr st))
      else ([], Inr lev_stack))"

text \<open>One iteration of the \<open>for\<close> loop: lines 14 to 40.\<close>

definition line_tokens ::
  "int option \<Rightarrow> int list \<times> bool \<Rightarrow> string \<Rightarrow> token list \<times> (error + int list \<times> bool)" where
  "line_tokens tabs st line =
     (case line_level tabs (snd st) line of
        Inl e \<Rightarrow> ([], Inl e)
      | Inr (lev, only_tabbed') \<Rightarrow>
          (case dent lev (fst st) of
             (out, Inl e) \<Rightarrow> (out, Inl e)
           | (out, Inr lev_stack') \<Rightarrow>
               (out @ [Content (strip (drop (length (lws line)) line))],
                Inr (lev_stack', only_tabbed'))))"

text \<open>Lines 42 to 44: one \<open>DEDENT\<close> for each level above the base.\<close>

function flush :: "int list \<Rightarrow> token list \<Rightarrow> int list \<times> token list" where
  "flush lev_stack out =
     (if length lev_stack > 1 then flush (butlast lev_stack) (out @ [DEDENT])
      else (lev_stack, out))"
  by pat_completeness auto
termination
  by (relation "measure (\<lambda>(lev_stack, out). length lev_stack)") auto

declare flush.simps [simp del]

text \<open>
  The \<open>for\<close> loop of lines 13 to 40 from a given stack and latch: the tokens it yields,
  then the state it leaves or the exception that ends the generator.
\<close>

fun tokenize_loop ::
  "int option \<Rightarrow> int list \<times> bool \<Rightarrow> string list \<Rightarrow>
     token list \<times> (error + int list \<times> bool)" where
  "tokenize_loop tabs st [] = ([], Inr st)"
| "tokenize_loop tabs st (line # lines) =
     (case line_tokens tabs st line of
        (out, Inl e) \<Rightarrow> (out, Inl e)
      | (out, Inr st') \<Rightarrow>
          (case tokenize_loop tabs st' lines of (out', r) \<Rightarrow> (out @ out', r)))"

text \<open>
  The generator as a whole: the tokens it yields, then how it ends: \<open>Inr\<close> the final level
  stack when it is exhausted, \<open>Inl\<close> the exception it raises.
\<close>

definition tokenize :: "int option \<Rightarrow> string list \<Rightarrow> token list \<times> (error + int list)" where
  "tokenize tabs lines =
     (case tokenize_loop tabs ([0], True) lines of
        (out, Inl e) \<Rightarrow> (out, Inl e)
      | (out, Inr (lev_stack, only_tabbed)) \<Rightarrow>
          (case flush lev_stack out of (s, out') \<Rightarrow> (out', Inr s)))"


text \<open>
  What the specification calls the remaining stack "after popping all strictly greater
  levels": the longest prefix of the stack whose top does not exceed \<open>lev\<close>.
\<close>

definition remaining_levels :: "int \<Rightarrow> int list \<Rightarrow> int list" where
  "remaining_levels lev lev_stack = rev (dropWhile (\<lambda>x. lev < x) (rev lev_stack))"

definition unmatched_level :: "int \<Rightarrow> int list \<Rightarrow> bool" where
  "unmatched_level lev lev_stack =
     (lev < last lev_stack \<and> remaining_levels lev lev_stack \<noteq> [] \<and>
      last (remaining_levels lev lev_stack) \<noteq> lev)"

definition count_tok :: "token \<Rightarrow> token list \<Rightarrow> nat" where
  "count_tok t toks = length (filter (\<lambda>x. x = t) toks)"

subsection \<open>Consuming the token stream\<close>

text \<open>
  The consumers share one iterator over the generator. A stream is the list of tokens
  still to come together with the way the generator ends once they are consumed:
  \<open>None\<close> when it is exhausted, \<open>Some e\<close> when it raises \<open>e\<close>.
\<close>

type_synonym stream = "token list \<times> error option"

definition stream_of :: "token list \<times> (error + int list) \<Rightarrow> stream" where
  "stream_of r = (fst r, case snd r of Inl e \<Rightarrow> Some e | Inr s \<Rightarrow> None)"

text \<open>
  \<open>read_block\<close>: the loop with its counter \<open>lev\<close>. The callback is a state transformer
  on whatever it updates; \<open>None\<close> is the default argument. The result is the stream left
  and the callback's state, or the exception of the generator.
\<close>

fun read_block_loop ::
  "int \<Rightarrow> (token \<Rightarrow> 's \<Rightarrow> 's) option \<Rightarrow> error option \<Rightarrow> token list \<Rightarrow> 's \<Rightarrow>
     error + (stream \<times> 's)" where
  "read_block_loop lev callback fin [] s =
     (case fin of Some e \<Rightarrow> Inl e | None \<Rightarrow> Inr (([], fin), s))"
| "read_block_loop lev callback fin (t # tok) s =
     (let lev1 = (if t = INDENT then lev + 1 else lev);
          lev2 = (if t = DEDENT then lev1 - 1 else lev1)
      in if t = DEDENT \<and> lev2 = 0 then Inr ((tok, fin), s)
         else read_block_loop lev2 callback fin tok
                (case callback of None \<Rightarrow> s | Some f \<Rightarrow> f t s))"

definition read_block :: "(token \<Rightarrow> 's \<Rightarrow> 's) option \<Rightarrow> stream \<Rightarrow> 's \<Rightarrow> error + (stream \<times> 's)" where
  "read_block callback tok s = read_block_loop 0 callback (snd tok) (fst tok) s"

text \<open>The callback applied to a list of tokens in order.\<close>

definition call_all :: "(token \<Rightarrow> 's \<Rightarrow> 's) option \<Rightarrow> token list \<Rightarrow> 's \<Rightarrow> 's" where
  "call_all callback toks s = (case callback of None \<Rightarrow> s | Some f \<Rightarrow> fold f toks s)"

text \<open>
  A block body is well nested from depth \<open>n\<close> when every \<open>DEDENT\<close> in it closes an
  \<open>INDENT\<close> of the body or one of the \<open>n\<close> blocks open before it, and all of them are
  closed at its end. After a body that is well nested from depth 0, the next \<open>DEDENT\<close>
  is the one that matches the \<open>INDENT\<close> before the body.
\<close>

fun well_nested :: "nat \<Rightarrow> token list \<Rightarrow> bool" where
  "well_nested n [] = (n = 0)"
| "well_nested n (INDENT # ts) = well_nested (Suc n) ts"
| "well_nested n (DEDENT # ts) = (n > 0 \<and> well_nested (n - 1) ts)"
| "well_nested n (Content c # ts) = well_nested n ts"

section \<open>The timeline model (tml.py)\<close>

subsection \<open>Strings and values\<close>

text \<open>\<open>str.split()\<close> with no argument: the maximal runs of characters that are not spaces.\<close>

fun split_acc :: "string \<Rightarrow> string \<Rightarrow> string list" where
  "split_acc cur [] = (if cur = [] then [] else [cur])"
| "split_acc cur (c # cs) =
     (if isspace c then (if cur = [] then split_acc [] cs else cur # split_acc [] cs)
      else split_acc (cur @ [c]) cs)"

definition split :: "string \<Rightarrow> string list" where
  "split s = split_acc [] s"

text \<open>\<open>' '.join(words)\<close>.\<close>

fun join_sp :: "string list \<Rightarrow> string" where
  "join_sp [] = []"
| "join_sp [w] = w"
| "join_sp (w # v # ws) = w @ '' '' @ join_sp (v # ws)"

text \<open>\<open>str(n)\<close> for a natural number, and the text an f-string gives an optional name.\<close>

function str_nat :: "nat \<Rightarrow> string" where
  "str_nat n =
     (if n < 10 then [char_of (48 + n)] else str_nat (n div 10) @ [char_of (48 + n mod 10)])"
  by pat_completeness auto
termination
  by (relation "measure id") auto

declare str_nat.simps [simp del]

definition str_opt :: "string option \<Rightarrow> string" where
  "str_opt nm = (case nm of None \<Rightarrow> ''None'' | Some s \<Rightarrow> s)"

text \<open>
  Times are floats in the code and real numbers here; NaN and the infinities are outside
  the model. \<open>float\<close> and \<open>int\<close> applied to a string are parameters \<open>pyfloat\<close> and \<open>pyint\<close>
  of the parsers and of \<open>select\<close>: \<open>None\<close> where Python raises \<open>ValueError\<close>.

  A value read through \<open>getattr\<close> or put in a \<open>GroupResult\<close> can be a number, \<open>None\<close>, a
  string, or some other object (a bound method, a class attribute).
\<close>

datatype pyval = Num real | NoneV | StrV string | Opaque string

definition of_time :: "real option \<Rightarrow> pyval" where
  "of_time t = (case t of None \<Rightarrow> NoneV | Some r \<Rightarrow> Num r)"

text \<open>
  A reference set (\<open>parents\<close>, \<open>from_rg\<close>, \<open>with_rg\<close>) holds names before linking and Range
  objects after it. Every Range object reachable from the model is the value of
  \<open>tml.ranges\<close> at its own name, so \<open>Obj k\<close> stands for the object stored under key \<open>k\<close>.
  A Range object is never equal to a string.
\<close>

datatype ref = Name string | Obj string

text \<open>A selector is a list of strings; the linker also puts the integer \<open>-1\<close> in one.\<close>

datatype sel_elem = SStr string | SInt int

type_synonym sel = "sel_elem list"

subsection \<open>The classes\<close>

text \<open>
  Python sets that the code iterates over are duplicate-free lists (the order of
  iteration, which Python leaves open, is the order of insertion); the constraint bag, a
  set of objects compared by identity, is a list.
\<close>

record Span =
  start :: "real option"
  sword :: string
  end' :: "real option"
  eword :: "string option"

datatype range_class = RangeClass | CharacterClass

text \<open>
  \<open>Range\<close> and its subclass \<open>Character\<close>: \<open>cls\<close> is the class of the object, \<open>gender\<close> and
  \<open>parents\<close> are attributes of a \<open>Character\<close> only. \<open>hanging_events\<close> holds events by
  their position in \<open>tml.events\<close>.
\<close>

record Range =
  cls :: range_class
  name :: string
  dispname :: "string option"
  classes :: "string set"
  spans :: "Span list"
  idx :: "nat option"
  ambient :: bool
  hanging_events :: "nat list"
  gender :: "string option"
  parents :: "ref list"

record Event =
  desc :: "string option"
  time :: "real option"
  from_rg :: "ref list"
  with_rg :: "ref list"
  classes :: "string set"
  name :: "string option"
  idx :: "nat option"

record Constraint =
  name :: "string option"
  before :: "sel option"
  after :: "sel option"
  offset :: real
  strict :: bool

record Group =
  name :: "string option"
  evs :: "sel list"

record GroupResult =
  name :: "string option"
  times :: "pyval list"

record Timeline =
  ranges :: "(string \<times> Range) list"
  events :: "Event list"
  constraints :: "Constraint list"
  groups :: "(string option \<times> Group) list"
  universal_evs :: "nat option"

definition new_Range :: "range_class \<Rightarrow> string \<Rightarrow> Range" where
  "new_Range c nm =
     \<lparr>cls = c, Range.name = nm, dispname = None, Range.classes = {}, spans = [],
      Range.idx = None, ambient = False, hanging_events = [], gender = None, parents = []\<rparr>"

definition new_Event :: Event where
  "new_Event =
     \<lparr>desc = None, time = None, from_rg = [], with_rg = [], Event.classes = {},
      Event.name = None, Event.idx = None\<rparr>"

definition new_Constraint :: "string option \<Rightarrow> sel option \<Rightarrow> sel option \<Rightarrow> Constraint" where
  "new_Constraint nm b a =
     \<lparr>Constraint.name = nm, before = b, after = a, offset = 0, strict = False\<rparr>"

definition new_Group :: Group where
  "new_Group = \<lparr>Group.name = None, evs = []\<rparr>"

definition new_Timeline :: Timeline where
  "new_Timeline = \<lparr>ranges = [], events = [], constraints = [], groups = [], universal_evs = None\<rparr>"

subsection \<open>Diagnostics\<close>

text \<open>
  Every \<open>print\<close> of a warning is a value of \<open>warning\<close>; a function returns the warnings it
  printed, in order, with its result. When an exception propagates the result is the
  exception alone.
\<close>

datatype warning =
    RangeOverwrites string
  | UnexpectedIndent string
  | UnexpectedRootDedent
  | UnknownBlockKind string
  | BlockDidntStart string
  | OverwritingSpan string Span
  | NoPreviousSpan "string list"
  | UnhandledDirective string "string list"
  | EOFEndsBlock string
  | CulledEvents nat
  | LinkFailed string "ref list"
  | ParentLinkFailed string "ref list"
  | SelectorUnresolved "sel option"
  | ConstraintViolated Constraint
  | UnresolvableName "string option" sel
  | CheckInvalid Constraint
  | CheckUnsatisfied Constraint
  | AllPassed

type_synonym 'a res = "error + 'a \<times> warning list"

definition bind_w :: "'a res \<Rightarrow> ('a \<Rightarrow> 'b res) \<Rightarrow> 'b res" where
  "bind_w m f =
     (case m of
        Inl e \<Rightarrow> Inl e
      | Inr (x, ws) \<Rightarrow> (case f x of Inl e \<Rightarrow> Inl e | Inr (y, ws') \<Rightarrow> Inr (y, ws @ ws')))"

subsection \<open>\<open>Timeline.add\<close>\<close>

text \<open>What the builders return, and anything else (\<open>OOther\<close>) a caller might pass.\<close>

datatype obj =
    ORange Range
  | OEvent Event
  | OConstraint Constraint
  | OGroup Group
  | OList "obj list"
  | OOther

fun add :: "Timeline \<Rightarrow> obj \<Rightarrow> Timeline res"
  and add_each :: "Timeline \<Rightarrow> obj list \<Rightarrow> Timeline res" where
  "add tml (ORange rg) =
     Inr (tml\<lparr>ranges := AList.update (Range.name rg) rg (ranges tml)\<rparr>,
          if map_of (ranges tml) (Range.name rg) \<noteq> None
          then [RangeOverwrites (Range.name rg)] else [])"
| "add tml (OEvent ev) = Inr (tml\<lparr>events := events tml @ [ev]\<rparr>, [])"
| "add tml (OConstraint con) = Inr (tml\<lparr>constraints := constraints tml @ [con]\<rparr>, [])"
| "add tml (OGroup grp) =
     Inr (tml\<lparr>groups := AList.update (Group.name grp) grp (groups tml)\<rparr>, [])"
| "add tml (OList os) = add_each tml os"
| "add tml OOther = Inl TypeError"
| "add_each tml [] = Inr (tml, [])"
| "add_each tml (ob # os) =
     (case add tml ob of
        Inl e \<Rightarrow> Inl e
      | Inr (tml', ws) \<Rightarrow>
          (case add_each tml' os of Inl e \<Rightarrow> Inl e | Inr (tml'', ws') \<Rightarrow> Inr (tml'', ws @ ws')))"

subsection \<open>The block builders\<close>

definition warn :: "warning list \<Rightarrow> 'a res \<Rightarrow> 'a res" where
  "warn ws m = (case m of Inl e \<Rightarrow> Inl e | Inr (x, ws') \<Rightarrow> Inr (x, ws @ ws'))"

text \<open>\<open>s.add(x)\<close> on a set kept as a list.\<close>

definition set_add :: "'a \<Rightarrow> 'a list \<Rightarrow> 'a list" where
  "set_add x xs = (if x \<in> set xs then xs else xs @ [x])"

text \<open>\<open>float(parts[1])\<close>: \<open>IndexError\<close> when there is no argument, then \<open>ValueError\<close>.\<close>

definition float_arg :: "(string \<Rightarrow> real option) \<Rightarrow> string list \<Rightarrow> error + real" where
  "float_arg pyfloat parts =
     (case parts of
        cmd # a # rest \<Rightarrow>
          (case pyfloat a of None \<Rightarrow> Inl (ValueError (InvalidFloat a)) | Some r \<Rightarrow> Inr r)
      | _ \<Rightarrow> Inl IndexError)"

definition BEGIN_WORDS :: "range_class \<Rightarrow> string set" where
  "BEGIN_WORDS c =
     (case c of RangeClass \<Rightarrow> {''begin''} | CharacterClass \<Rightarrow> {''begin'', ''born'', ''raised''})"

definition END_WORDS :: "range_class \<Rightarrow> string set" where
  "END_WORDS c =
     (case c of RangeClass \<Rightarrow> {''end''} | CharacterClass \<Rightarrow> {''end'', ''died'', ''living''})"

text \<open>
  \<open>inst.spans.sort(key=lambda sp: sp.start)\<close>: a stable sort; comparing a start that is
  \<open>None\<close> raises \<open>TypeError\<close>, and a list of at most one span is not compared at all.
\<close>

definition sort_spans :: "Span list \<Rightarrow> error + Span list" where
  "sort_spans sps =
     (if length sps \<le> 1 then Inr sps
      else if list_ex (\<lambda>sp. start sp = None) sps then Inl TypeError
      else Inr (sort_key (\<lambda>sp. the (start sp)) sps))"

text \<open>\<open>Range.unhandled_directive\<close> and its override in \<open>Character\<close>.\<close>

definition unhandled_directive :: "Range \<Rightarrow> string list \<Rightarrow> Range res" where
  "unhandled_directive inst parts =
     (case cls inst of
        RangeClass \<Rightarrow> Inr (inst, [UnhandledDirective ''range'' parts])
      | CharacterClass \<Rightarrow>
          (case parts of
             [] \<Rightarrow> Inl IndexError
           | cmd # args \<Rightarrow>
               if cmd = ''gender'' then
                 (case args of [] \<Rightarrow> Inl IndexError | g # rest \<Rightarrow> Inr (inst\<lparr>gender := Some g\<rparr>, []))
               else if cmd = ''parent'' then
                 Inr (inst\<lparr>parents := fold (\<lambda>p ps. set_add (Name p) ps) args (parents inst)\<rparr>, [])
               else Inr (inst, [])))"

text \<open>
  One directive line of a Range block (lines 251 to 273), on the instance and the
  pending span \<open>cur_span\<close>.
\<close>

definition range_directive ::
  "(string \<Rightarrow> real option) \<Rightarrow> Range \<times> Span option \<Rightarrow> string list \<Rightarrow> (Range \<times> Span option) res" where
  "range_directive pyfloat st parts =
     (case st of (inst, cur_span) \<Rightarrow>
      (case parts of
         [] \<Rightarrow> Inl IndexError
       | cmd # args \<Rightarrow>
           if cmd \<in> BEGIN_WORDS (cls inst) then
             (case float_arg pyfloat parts of
                Inl e \<Rightarrow> Inl e
              | Inr t \<Rightarrow>
                  Inr ((inst, Some \<lparr>start = Some t, sword = cmd, end' = None, eword = None\<rparr>),
                       case cur_span of
                         None \<Rightarrow> []
                       | Some sp \<Rightarrow> [OverwritingSpan (Range.name inst) sp]))
           else if cmd \<in> END_WORDS (cls inst) then
             (case cur_span of
                None \<Rightarrow> Inr ((inst, None), [NoPreviousSpan parts])
              | Some sp \<Rightarrow>
                  (case float_arg pyfloat parts of
                     Inl e \<Rightarrow> Inl e
                   | Inr t \<Rightarrow>
                       Inr ((inst\<lparr>spans := spans inst @ [sp\<lparr>eword := Some cmd, end' := Some t\<rparr>]\<rparr>,
                             None), [])))
           else if cmd = ''class'' then
             Inr ((inst\<lparr>Range.classes := Range.classes inst \<union> set args\<rparr>, cur_span), [])
           else if cmd = ''name'' then
             Inr ((inst\<lparr>dispname := Some (join_sp args)\<rparr>, cur_span), [])
           else if cmd = ''ambient'' then
             Inr ((inst\<lparr>ambient := True\<rparr>, cur_span), [])
           else
             (case unhandled_directive inst parts of
                Inl e \<Rightarrow> Inl e
              | Inr (inst', ws) \<Rightarrow> Inr ((inst', cur_span), ws))))"

text \<open>
  The end of a Range block, at its \<open>DEDENT\<close> or at the end of input: the spans are sorted
  and the instance is returned. \<open>cur_span\<close> is not looked at.
\<close>

definition range_finish :: "Range \<Rightarrow> stream \<Rightarrow> warning list \<Rightarrow> (Range \<times> stream) res" where
  "range_finish inst tok ws =
     (case sort_spans (spans inst) of
        Inl e \<Rightarrow> Inl e
      | Inr sps \<Rightarrow> Inr ((inst\<lparr>spans := sps\<rparr>, tok), ws))"

text \<open>The \<open>for\<close> loop of \<open>Range.from_tokens\<close> (lines 242 to 276).\<close>

fun Range_loop ::
  "(string \<Rightarrow> real option) \<Rightarrow> error option \<Rightarrow> Range \<times> Span option \<Rightarrow> token list \<Rightarrow>
     (Range \<times> stream) res" where
  "Range_loop pyfloat fin st [] =
     (case fin of
        Some e \<Rightarrow> Inl e
      | None \<Rightarrow> range_finish (fst st) ([], fin) [EOFEndsBlock ''range''])"
| "Range_loop pyfloat fin st (INDENT # tok) =
     warn [UnexpectedIndent ''range''] (Range_loop pyfloat fin st tok)"
| "Range_loop pyfloat fin st (DEDENT # tok) = range_finish (fst st) (tok, fin) []"
| "Range_loop pyfloat fin st (Content t # tok) =
     (if t = [] then Range_loop pyfloat fin st tok
      else
        (case range_directive pyfloat st (split t) of
           Inl e \<Rightarrow> Inl e
         | Inr (st', ws) \<Rightarrow> warn ws (Range_loop pyfloat fin st' tok)))"

definition Range_from_tokens ::
  "range_class \<Rightarrow> (string \<Rightarrow> real option) \<Rightarrow> stream \<Rightarrow> string list \<Rightarrow> (Range \<times> stream) res" where
  "Range_from_tokens c pyfloat tok hdr =
     Range_loop pyfloat (snd tok) (new_Range c (join_sp (tl hdr)), None) (fst tok)"

text \<open>
  A token of a Range block of class \<open>c\<close> that neither closes the block nor is a line
  starting with a begin-word or an end-word: while only such tokens follow, a pending
  span stays pending.
\<close>

definition keeps_pending :: "range_class \<Rightarrow> token \<Rightarrow> bool" where
  "keeps_pending c t =
     (case t of
        INDENT \<Rightarrow> True
      | DEDENT \<Rightarrow> False
      | Content l \<Rightarrow>
          (case split l of [] \<Rightarrow> True | cmd # args \<Rightarrow> cmd \<notin> BEGIN_WORDS c \<and> cmd \<notin> END_WORDS c))"

text \<open>
  The loops of \<open>Event.from_tokens\<close>, \<open>Constraint.from_tokens\<close>, \<open>Group.from_tokens\<close> and
  \<open>Sequence.from_tokens\<close> are the same text up to the branch on the directive: \<open>kind\<close> is
  the word in their warnings, \<open>directive\<close> the branch on a non-empty line, \<open>st\<close> what the
  loop has built so far.
\<close>

fun block_loop ::
  "string \<Rightarrow> ('s \<Rightarrow> string list \<Rightarrow> 's res) \<Rightarrow> error option \<Rightarrow> 's \<Rightarrow> token list \<Rightarrow>
     ('s \<times> stream) res" where
  "block_loop kind directive fin st [] =
     (case fin of Some e \<Rightarrow> Inl e | None \<Rightarrow> Inr ((st, ([], fin)), [EOFEndsBlock kind]))"
| "block_loop kind directive fin st (INDENT # tok) =
     warn [UnexpectedIndent kind] (block_loop kind directive fin st tok)"
| "block_loop kind directive fin st (DEDENT # tok) = Inr ((st, (tok, fin)), [])"
| "block_loop kind directive fin st (Content t # tok) =
     (if t = [] then block_loop kind directive fin st tok
      else
        (case directive st (split t) of
           Inl e \<Rightarrow> Inl e
         | Inr (st', ws) \<Rightarrow> warn ws (block_loop kind directive fin st' tok)))"

text \<open>The name a builder takes from its header line: \<open>' '.join(hdr[1:])\<close> if there is one.\<close>

definition hdr_name :: "string list \<Rightarrow> string option" where
  "hdr_name hdr = (if length hdr > 1 then Some (join_sp (tl hdr)) else None)"

definition event_directive :: "(string \<Rightarrow> real option) \<Rightarrow> Event \<Rightarrow> string list \<Rightarrow> Event res" where
  "event_directive pyfloat inst parts =
     (case parts of
        [] \<Rightarrow> Inl IndexError
      | cmd # args \<Rightarrow>
          if cmd = ''at'' then
            (case float_arg pyfloat parts of
               Inl e \<Rightarrow> Inl e
             | Inr t \<Rightarrow> Inr (inst\<lparr>time := Some t\<rparr>, []))
          else if cmd = ''desc'' then Inr (inst\<lparr>desc := Some (join_sp args)\<rparr>, [])
          else if cmd = ''from'' then
            Inr (inst\<lparr>from_rg := fold (\<lambda>p ps. set_add (Name p) ps) args (from_rg inst)\<rparr>, [])
          else if cmd = ''with'' then
            Inr (inst\<lparr>with_rg := fold (\<lambda>p ps. set_add (Name p) ps) args (with_rg inst)\<rparr>, [])
          else if cmd = ''class'' then
            Inr (inst\<lparr>Event.classes := Event.classes inst \<union> set args\<rparr>, [])
          else Inr (inst, [UnhandledDirective ''event'' parts]))"

definition Event_from_tokens ::
  "(string \<Rightarrow> real option) \<Rightarrow> stream \<Rightarrow> string list \<Rightarrow> (Event \<times> stream) res" where
  "Event_from_tokens pyfloat tok hdr =
     block_loop ''event'' (event_directive pyfloat) (snd tok)
       (new_Event\<lparr>Event.name := hdr_name hdr\<rparr>) (fst tok)"

definition constraint_directive ::
  "(string \<Rightarrow> real option) \<Rightarrow> Constraint \<Rightarrow> string list \<Rightarrow> Constraint res" where
  "constraint_directive pyfloat inst parts =
     (case parts of
        [] \<Rightarrow> Inl IndexError
      | cmd # args \<Rightarrow>
          if cmd = ''before'' then Inr (inst\<lparr>before := Some (map SStr args)\<rparr>, [])
          else if cmd = ''after'' then Inr (inst\<lparr>after := Some (map SStr args)\<rparr>, [])
          else if cmd = ''offset'' then
            (case float_arg pyfloat parts of
               Inl e \<Rightarrow> Inl e
             | Inr x \<Rightarrow> Inr (inst\<lparr>offset := x\<rparr>, []))
          else if cmd = ''strict'' then Inr (inst\<lparr>strict := True\<rparr>, [])
          else Inr (inst, [UnhandledDirective ''constraint'' parts]))"

definition Constraint_from_tokens ::
  "(string \<Rightarrow> real option) \<Rightarrow> stream \<Rightarrow> string list \<Rightarrow> (Constraint \<times> stream) res" where
  "Constraint_from_tokens pyfloat tok hdr =
     block_loop ''constraint'' (constraint_directive pyfloat) (snd tok)
       (new_Constraint (hdr_name hdr) None None) (fst tok)"

definition group_directive :: "Group \<Rightarrow> string list \<Rightarrow> Group res" where
  "group_directive inst parts =
     (case parts of
        [] \<Rightarrow> Inl IndexError
      | cmd # args \<Rightarrow>
          if cmd = ''event'' then Inr (inst\<lparr>evs := set_add (map SStr args) (evs inst)\<rparr>, [])
          else Inr (inst, [UnhandledDirective ''group'' parts]))"

definition Group_from_tokens :: "stream \<Rightarrow> string list \<Rightarrow> (Group \<times> stream) res" where
  "Group_from_tokens tok hdr =
     block_loop ''group'' group_directive (snd tok) (new_Group\<lparr>Group.name := hdr_name hdr\<rparr>)
       (fst tok)"

text \<open>
  \<open>Sequence.from_tokens\<close>: the state is the list \<open>cons\<close>, the counter \<open>idx\<close> and \<open>lastev\<close>;
  \<open>nm\<close> is the name from the header, printed as \<open>None\<close> when there is none.
\<close>

definition sequence_directive ::
  "string option \<Rightarrow> Constraint list \<times> nat \<times> sel option \<Rightarrow> string list \<Rightarrow>
     (Constraint list \<times> nat \<times> sel option) res" where
  "sequence_directive nm st parts =
     (case st of (cons, i, lastev) \<Rightarrow>
      (case parts of
         [] \<Rightarrow> Inl IndexError
       | cmd # args \<Rightarrow>
           if cmd = ''event'' then
             (case lastev of
                None \<Rightarrow> Inr ((cons, i, Some (map SStr args)), [])
              | Some l \<Rightarrow>
                  Inr ((cons @ [new_Constraint (Some (str_opt nm @ ''_'' @ str_nat i)) (Some l)
                                  (Some (map SStr args))],
                        Suc i, Some (map SStr args)), []))
           else Inr (st, [UnhandledDirective ''sequence'' parts])))"

definition Sequence_from_tokens :: "stream \<Rightarrow> string list \<Rightarrow> (Constraint list \<times> stream) res" where
  "Sequence_from_tokens tok hdr =
     (case block_loop ''sequence'' (sequence_directive (hdr_name hdr)) (snd tok) ([], 0, None)
             (fst tok) of
        Inl e \<Rightarrow> Inl e
      | Inr ((st, tok'), ws) \<Rightarrow> Inr ((fst st, tok'), ws))"

text \<open>
  The table \<open>handlers\<close> of \<open>Timeline.from_tokens\<close>: the builder for a block kind, its
  result as the object handed to \<open>add\<close>.
\<close>

definition handlers ::
  "(string \<Rightarrow> real option) \<Rightarrow> string \<Rightarrow> (stream \<Rightarrow> string list \<Rightarrow> (obj \<times> stream) res) option" where
  "handlers pyfloat kind =
     (if kind = ''char'' then
        Some (\<lambda>tok hdr. case Range_from_tokens CharacterClass pyfloat tok hdr of
                          Inl e \<Rightarrow> Inl e | Inr ((r, tok'), ws) \<Rightarrow> Inr ((ORange r, tok'), ws))
      else if kind = ''event'' then
        Some (\<lambda>tok hdr. case Event_from_tokens pyfloat tok hdr of
                          Inl e \<Rightarrow> Inl e | Inr ((r, tok'), ws) \<Rightarrow> Inr ((OEvent r, tok'), ws))
      else if kind = ''constraint'' then
        Some (\<lambda>tok hdr. case Constraint_from_tokens pyfloat tok hdr of
                          Inl e \<Rightarrow> Inl e | Inr ((r, tok'), ws) \<Rightarrow> Inr ((OConstraint r, tok'), ws))
      else if kind = ''sequence'' then
        Some (\<lambda>tok hdr. case Sequence_from_tokens tok hdr of
                          Inl e \<Rightarrow> Inl e
                        | Inr ((r, tok'), ws) \<Rightarrow> Inr ((OList (map OConstraint r), tok'), ws))
      else if kind = ''group'' then
        Some (\<lambda>tok hdr. case Group_from_tokens tok hdr of
                          Inl e \<Rightarrow> Inl e | Inr ((r, tok'), ws) \<Rightarrow> Inr ((OGroup r, tok'), ws))
      else None)"


lemma warn_Inr: "warn ws m = Inr (x, ws') \<Longrightarrow> \<exists>v. m = Inr (x, v)"
  by (auto simp: warn_def split: sum.splits)

lemma read_block_loop_length:
  "read_block_loop lev cb fin tok s = Inr ((tok', fin'), s') \<Longrightarrow> length tok' \<le> length tok"
proof (induction tok arbitrary: lev s)
  case Nil
  then show ?case by (auto split: option.splits)
next
  case (Cons t ts)
  show ?case
  proof (cases "t = DEDENT \<and> (if t = DEDENT then (if t = INDENT then lev + 1 else lev) - 1
        else (if t = INDENT then lev + 1 else lev)) = 0")
    case True
    with Cons.prems show ?thesis by (auto simp: Let_def)
  next
    case False
    with Cons.prems have "\<exists>l s1. read_block_loop l cb fin ts s1 = Inr ((tok', fin'), s')"
      by (auto simp: Let_def split: if_splits)
    then obtain l s1 where "read_block_loop l cb fin ts s1 = Inr ((tok', fin'), s')" by blast
    from Cons.IH [OF this] show ?thesis by simp
  qed
qed

lemma Range_loop_length:
  "Range_loop pyfloat fin st tok = Inr ((r, (tok', fin')), ws) \<Longrightarrow> length tok' \<le> length tok"
proof (induction tok arbitrary: st ws)
  case Nil
  then show ?case by (auto simp: range_finish_def split: option.splits sum.splits)
next
  case (Cons t ts)
  show ?case
  proof (cases t)
    case INDENT
    with Cons.prems obtain v where "Range_loop pyfloat fin st ts = Inr ((r, (tok', fin')), v)"
      by (auto dest: warn_Inr)
    from Cons.IH [OF this] show ?thesis by simp
  next
    case DEDENT
    with Cons.prems show ?thesis by (auto simp: range_finish_def split: sum.splits)
  next
    case (Content l)
    with Cons.prems obtain st' v where "Range_loop pyfloat fin st' ts = Inr ((r, (tok', fin')), v)"
      by (auto split: if_splits sum.splits dest: warn_Inr)
    from Cons.IH [OF this] show ?thesis by simp
  qed
qed

lemma block_loop_length:
  "block_loop kind dir fin st tok = Inr ((r, (tok', fin')), ws) \<Longrightarrow> length tok' \<le> length tok"
proof (induction tok arbitrary: st ws)
  case Nil
  then show ?case by (auto split: option.splits)
next
  case (Cons t ts)
  show ?case
  proof (cases t)
    case INDENT
    with Cons.prems obtain v where "block_loop kind dir fin st ts = Inr ((r, (tok', fin')), v)"
      by (auto dest: warn_Inr)
    from Cons.IH [OF this] show ?thesis by simp
  next
    case DEDENT
    with Cons.prems show ?thesis by auto
  next
    case (Content l)
    with Cons.prems obtain st' v where "block_loop kind dir fin st' ts = Inr ((r, (tok', fin')), v)"
      by (auto split: if_splits sum.splits dest: warn_Inr)
    from Cons.IH [OF this] show ?thesis by simp
  qed
qed

lemma handlers_length:
  "handlers pyfloat kind = Some h \<Longrightarrow> h (tok, fin) hdr = Inr ((ob, (tok', fin')), ws) \<Longrightarrow>
     length tok' \<le> length tok"
  by (auto simp: handlers_def Range_from_tokens_def Event_from_tokens_def
      Constraint_from_tokens_def Group_from_tokens_def Sequence_from_tokens_def
      split: if_splits sum.splits prod.splits
      dest: Range_loop_length block_loop_length)


text \<open>
  The loop of \<open>Timeline.from_tokens\<close> (lines 116 to 138). \<open>next(tok)\<close> on an exhausted
  generator raises \<open>StopIteration\<close>; the token it returns is consumed whatever it is.
\<close>

function Timeline_loop ::
  "(string \<Rightarrow> real option) \<Rightarrow> error option \<Rightarrow> Timeline \<Rightarrow> token list \<Rightarrow> Timeline res" where
  "Timeline_loop pyfloat fin inst [] = (case fin of Some e \<Rightarrow> Inl e | None \<Rightarrow> Inr (inst, []))"
| "Timeline_loop pyfloat fin inst (INDENT # tok) =
     warn [UnexpectedIndent ''root''] (Timeline_loop pyfloat fin inst tok)"
| "Timeline_loop pyfloat fin inst (DEDENT # tok) =
     warn [UnexpectedRootDedent] (Timeline_loop pyfloat fin inst tok)"
| "Timeline_loop pyfloat fin inst (Content t # tok) =
     (if t = [] then Timeline_loop pyfloat fin inst tok
      else
        (case split t of
           [] \<Rightarrow> Inl IndexError
         | kind # args \<Rightarrow>
             if kind = ''comment'' then
               (case read_block (None :: (token \<Rightarrow> unit \<Rightarrow> unit) option) (tok, fin) () of
                  Inl e \<Rightarrow> Inl e
                | Inr ((tok', f), u) \<Rightarrow> Timeline_loop pyfloat fin inst tok')
             else
               (case handlers pyfloat kind of
                  None \<Rightarrow>
                    (case read_block (None :: (token \<Rightarrow> unit \<Rightarrow> unit) option) (tok, fin) () of
                       Inl e \<Rightarrow> Inl e
                     | Inr ((tok', f), u) \<Rightarrow>
                         warn [UnknownBlockKind kind] (Timeline_loop pyfloat fin inst tok'))
                | Some handler \<Rightarrow>
                    (case tok of
                       [] \<Rightarrow> Inl (case fin of Some e \<Rightarrow> e | None \<Rightarrow> StopIteration)
                     | nx # tok1 \<Rightarrow>
                         if nx \<noteq> INDENT then
                           warn [BlockDidntStart kind] (Timeline_loop pyfloat fin inst tok1)
                         else
                           (case handler (tok1, fin) (kind # args) of
                              Inl e \<Rightarrow> Inl e
                            | Inr ((result, (tok2, f)), ws) \<Rightarrow>
                                (case add inst result of
                                   Inl e \<Rightarrow> Inl e
                                 | Inr (inst', ws') \<Rightarrow>
                                     warn (ws @ ws')
                                       (Timeline_loop pyfloat fin inst' tok2)))))))"
  by pat_completeness auto
termination
  by (relation "measure (\<lambda>(pyfloat, fin, inst, tok). length tok)")
     (auto simp: read_block_def less_Suc_eq_le
        dest: read_block_loop_length handlers_length le_SucI)


declare Timeline_loop.simps [simp del]

definition Timeline_from_tokens :: "(string \<Rightarrow> real option) \<Rightarrow> stream \<Rightarrow> Timeline res" where
  "Timeline_from_tokens pyfloat tok = Timeline_loop pyfloat (snd tok) new_Timeline (fst tok)"

subsection \<open>Selectors and constraints\<close>

text \<open>\<open>rg.spans[idx]\<close>: a negative index counts from the end; out of range raises.\<close>

definition span_at :: "Span list \<Rightarrow> int \<Rightarrow> error + Span" where
  "span_at sps i =
     (let n = int (length sps); j = (if i < 0 then n + i else i)
      in if 0 \<le> j \<and> j < n then Inr (sps ! nat j) else Inl IndexError)"

text \<open>
  \<open>getattr(span, prop)\<close>. Besides its four fields a \<open>Span\<close> has the class attributes
  \<open>HEIGHT\<close> and \<open>GAP\<close>, its methods, and what every object inherits; the last two kinds are
  values the engine can do nothing with. Any other name raises \<open>AttributeError\<close>; a
  name that is not a string raises \<open>TypeError\<close>.
\<close>

definition span_other_attrs :: "string list" where
  "span_other_attrs =
     [''dump'', ''render'', ''__init__'', ''__repr__'', ''__class__'', ''__dict__'', ''__doc__'',
      ''__module__'', ''__weakref__'', ''__eq__'', ''__ne__'', ''__lt__'', ''__le__'', ''__gt__'',
      ''__ge__'', ''__hash__'', ''__str__'', ''__format__'', ''__dir__'', ''__sizeof__'',
      ''__reduce__'', ''__reduce_ex__'', ''__getstate__'', ''__getattribute__'', ''__setattr__'',
      ''__delattr__'', ''__new__'', ''__init_subclass__'', ''__subclasshook__'']"

definition getattr_span :: "Span \<Rightarrow> sel_elem \<Rightarrow> error + pyval" where
  "getattr_span sp prop =
     (case prop of
        SInt i \<Rightarrow> Inl TypeError
      | SStr p \<Rightarrow>
          if p = ''start'' then Inr (of_time (start sp))
          else if p = ''end'' then Inr (of_time (end' sp))
          else if p = ''sword'' then Inr (StrV (sword sp))
          else if p = ''eword'' then Inr (case eword sp of None \<Rightarrow> NoneV | Some w \<Rightarrow> StrV w)
          else if p = ''HEIGHT'' then Inr (Num 50)
          else if p = ''GAP'' then Inr (Num 20)
          else if p \<in> set span_other_attrs then Inr (Opaque p)
          else Inl (AttributeError p))"

text \<open>\<open>int(sel[1])\<close>.\<close>

definition int_of_elem :: "(string \<Rightarrow> int option) \<Rightarrow> sel_elem \<Rightarrow> error + int" where
  "int_of_elem pyint x =
     (case x of
        SInt i \<Rightarrow> Inr i
      | SStr a \<Rightarrow> (case pyint a of None \<Rightarrow> Inl (ValueError (InvalidInt a)) | Some i \<Rightarrow> Inr i))"

text \<open>The Range branch of \<open>Constraint.select\<close> (lines 534 to 540).\<close>

definition select_range :: "(string \<Rightarrow> int option) \<Rightarrow> string \<Rightarrow> Range \<Rightarrow> sel \<Rightarrow> GroupResult option res" where
  "select_range pyint k rg sel =
     (let prop = (if length sel > 1 then last sel else SStr ''start'')
      in case (if length sel > 2 then int_of_elem pyint (sel ! 1) else Inr 0) of
           Inl e \<Rightarrow> Inl e
         | Inr i \<Rightarrow>
             (case span_at (spans rg) i of
                Inl e \<Rightarrow> Inl e
              | Inr sp \<Rightarrow>
                  (case getattr_span sp prop of
                     Inl e \<Rightarrow> Inl e
                   | Inr v \<Rightarrow> Inr (Some \<lparr>GroupResult.name = Some k, times = [v]\<rparr>, []))))"

text \<open>The Event branch (lines 541 to 543): the first event of that name, or \<open>None\<close>.\<close>

definition select_event :: "Timeline \<Rightarrow> string \<Rightarrow> GroupResult option" where
  "select_event tml k =
     (case find (\<lambda>ev. Event.name ev = Some k) (events tml) of
        None \<Rightarrow> None
      | Some ev \<Rightarrow> Some \<lparr>GroupResult.name = Some k, times = [of_time (time ev)]\<rparr>)"

text \<open>
  \<open>Constraint.select\<close> and \<open>Group.into_result\<close> call each other. \<open>d\<close> is the number of
  nested calls of \<open>select\<close> the interpreter still allows: Python's recursion limit, which
  a group that reaches itself exhausts, raising \<open>RecursionError\<close>. \<open>into_result\<close> is the
  loop over the members that are left, with the set of times built so far.
\<close>

fun select :: "(string \<Rightarrow> int option) \<Rightarrow> nat \<Rightarrow> Timeline \<Rightarrow> sel \<Rightarrow> GroupResult option res"
  and into_result ::
    "(string \<Rightarrow> int option) \<Rightarrow> nat \<Rightarrow> Timeline \<Rightarrow> string option \<Rightarrow> sel list \<Rightarrow> pyval list \<Rightarrow>
       GroupResult res" where
  "select pyint 0 tml sel = Inl RecursionError"
| "select pyint (Suc d) tml sel =
     (case sel of
        [] \<Rightarrow> Inl IndexError
      | SInt i # rest \<Rightarrow> Inr (None, [])
      | SStr k # rest \<Rightarrow>
          (case map_of (groups tml) (Some k) of
             Some grp \<Rightarrow>
               (case into_result pyint d tml (Group.name grp) (evs grp) [] of
                  Inl e \<Rightarrow> Inl e
                | Inr (r, ws) \<Rightarrow> Inr (Some r, ws))
           | None \<Rightarrow>
               (case map_of (ranges tml) k of
                  Some rg \<Rightarrow> select_range pyint k rg sel
                | None \<Rightarrow> Inr (select_event tml k, []))))"
| "into_result pyint d tml nm [] acc = Inr (\<lparr>GroupResult.name = nm, times = acc\<rparr>, [])"
| "into_result pyint d tml nm (ev # sels) acc =
     (case select pyint d tml ev of
        Inl e \<Rightarrow> Inl e
      | Inr (None, ws) \<Rightarrow>
          warn (ws @ [UnresolvableName nm ev]) (into_result pyint d tml nm sels acc)
      | Inr (Some tm, ws) \<Rightarrow>
          warn ws (into_result pyint d tml nm sels (fold set_add (times tm) acc)))"

text \<open>
  \<open>min\<close> and \<open>max\<close> of a set of values: \<open>ValueError\<close> on the empty set, the element of a
  singleton, the least or greatest of numbers and of strings, and \<open>TypeError\<close> when
  values that cannot be compared meet.
\<close>

definition py_min :: "pyval list \<Rightarrow> error + pyval" where
  "py_min vs =
     (case remdups vs of
        [] \<Rightarrow> Inl (ValueError EmptySequence)
      | [v] \<Rightarrow> Inr v
      | v # w # rest \<Rightarrow>
          if length [r. Num r \<leftarrow> vs] = length vs then Inr (Num (Min (set [r. Num r \<leftarrow> vs])))
          else if length [a. StrV a \<leftarrow> vs] = length vs then Inr (StrV (Min (set [a. StrV a \<leftarrow> vs])))
          else Inl TypeError)"

definition py_max :: "pyval list \<Rightarrow> error + pyval" where
  "py_max vs =
     (case remdups vs of
        [] \<Rightarrow> Inl (ValueError EmptySequence)
      | [v] \<Rightarrow> Inr v
      | v # w # rest \<Rightarrow>
          if length [r. Num r \<leftarrow> vs] = length vs then Inr (Num (Max (set [r. Num r \<leftarrow> vs])))
          else if length [a. StrV a \<leftarrow> vs] = length vs then Inr (StrV (Max (set [a. StrV a \<leftarrow> vs])))
          else Inl TypeError)"

text \<open>\<open>v + offset\<close> and the two comparisons, on values: numbers only.\<close>

definition py_add :: "pyval \<Rightarrow> real \<Rightarrow> error + pyval" where
  "py_add v x = (case v of Num r \<Rightarrow> Inr (Num (r + x)) | _ \<Rightarrow> Inl TypeError)"

definition py_less :: "bool \<Rightarrow> pyval \<Rightarrow> pyval \<Rightarrow> error + bool" where
  "py_less strictly a b =
     (case (a, b) of
        (Num x, Num y) \<Rightarrow> Inr (if strictly then x < y else x \<le> y)
      | (StrV x, StrV y) \<Rightarrow> Inr (if strictly then x < y else x \<le> y)
      | _ \<Rightarrow> Inl TypeError)"

text \<open>
  \<open>Constraint.verify\<close>. Both selectors are evaluated first; a selector that is \<open>None\<close>
  cannot be indexed (\<open>TypeError\<close>).
\<close>

definition select_opt :: "(string \<Rightarrow> int option) \<Rightarrow> nat \<Rightarrow> Timeline \<Rightarrow> sel option \<Rightarrow> GroupResult option res" where
  "select_opt pyint d tml s = (case s of None \<Rightarrow> Inl TypeError | Some sel \<Rightarrow> select pyint d tml sel)"

definition verify :: "(string \<Rightarrow> int option) \<Rightarrow> nat \<Rightarrow> Constraint \<Rightarrow> Timeline \<Rightarrow> bool res" where
  "verify pyint d con tml =
     bind_w (select_opt pyint d tml (before con)) (\<lambda>bft.
     bind_w (select_opt pyint d tml (after con)) (\<lambda>aft.
       case bft of
         None \<Rightarrow> Inr (False, [SelectorUnresolved (before con)])
       | Some b \<Rightarrow>
           (case aft of
              None \<Rightarrow> Inr (False, [SelectorUnresolved (after con)])
            | Some a \<Rightarrow>
                (case py_max (times b) of
                   Inl e \<Rightarrow> Inl e
                 | Inr mx \<Rightarrow>
                     (case py_min (times a) of
                        Inl e \<Rightarrow> Inl e
                      | Inr mn \<Rightarrow>
                          (case py_add mn (offset con) of
                             Inl e \<Rightarrow> Inl e
                           | Inr bound \<Rightarrow>
                               (case py_less (strict con) mx bound of
                                  Inl e \<Rightarrow> Inl e
                                | Inr cond \<Rightarrow>
                                    Inr (cond, if cond then [] else [ConstraintViolated con]))))))))"

definition is_valid_Constraint :: "Constraint \<Rightarrow> bool" where
  "is_valid_Constraint con = (before con \<noteq> None \<and> after con \<noteq> None)"

text \<open>\<open>Timeline.check\<close>: the loop over the constraints with the flag \<open>good\<close>.\<close>

fun check_loop :: "(string \<Rightarrow> int option) \<Rightarrow> nat \<Rightarrow> Timeline \<Rightarrow> Constraint list \<Rightarrow> bool \<Rightarrow> bool res" where
  "check_loop pyint d tml [] good = Inr (good, [])"
| "check_loop pyint d tml (con # cons) good =
     (if \<not> is_valid_Constraint con then
        warn [CheckInvalid con] (check_loop pyint d tml cons good)
      else
        (case verify pyint d con tml of
           Inl e \<Rightarrow> Inl e
         | Inr (ok, ws) \<Rightarrow>
             if ok then warn ws (check_loop pyint d tml cons good)
             else warn (ws @ [CheckUnsatisfied con]) (check_loop pyint d tml cons False)))"

definition check :: "(string \<Rightarrow> int option) \<Rightarrow> nat \<Rightarrow> Timeline \<Rightarrow> bool res" where
  "check pyint d tml =
     bind_w (check_loop pyint d tml (constraints tml) True)
       (\<lambda>good. Inr (good, if good then [AllPassed] else []))"

subsection \<open>Linking\<close>

text \<open>
  \<open>Timeline.time_bounds\<close>: the set \<open>tms\<close> of every span start and end and every event
  time (\<open>None\<close> for an event without a time), then its \<open>min\<close> and its \<open>max\<close>.
\<close>

definition time_values :: "Timeline \<Rightarrow> pyval list" where
  "time_values tml =
     concat (map (\<lambda>(k, rg). concat (map (\<lambda>sp. [of_time (start sp), of_time (end' sp)]) (spans rg)))
               (ranges tml)) @
     map (\<lambda>ev. of_time (time ev)) (events tml)"

definition time_bounds :: "Timeline \<Rightarrow> error + pyval \<times> pyval" where
  "time_bounds tml =
     (case py_min (time_values tml) of
        Inl e \<Rightarrow> Inl e
      | Inr mnt \<Rightarrow>
          (case py_max (time_values tml) of Inl e \<Rightarrow> Inl e | Inr mxt \<Rightarrow> Inr (mnt, mxt)))"

definition to_time :: "pyval \<Rightarrow> real option" where
  "to_time v = (case v of Num r \<Rightarrow> Some r | _ \<Rightarrow> None)"

text \<open>\<open>Range.link\<close>.\<close>

definition Range_link :: "Range \<Rightarrow> Timeline \<Rightarrow> error + Range" where
  "Range_link rg tml =
     (if ambient rg then
        (case time_bounds tml of
           Inl e \<Rightarrow> Inl e
         | Inr (mnt, mxt) \<Rightarrow>
             Inr (rg\<lparr>spans := [\<lparr>start = to_time mnt, sword = ''begin'',
                                 end' = to_time mxt, eword = Some ''end''\<rparr>]\<rparr>))
      else Inr rg)"

text \<open>
  \<open>set(tml.ranges[nm] for nm in refs if nm in tml.ranges)\<close>, and the difference
  \<open>refs - set(rg.name for rg in ...)\<close> of what was not resolved. A Range object is not a
  key of \<open>tml.ranges\<close> and is not equal to a name.
\<close>

definition resolve :: "(string \<times> Range) list \<Rightarrow> ref list \<Rightarrow> ref list" where
  "resolve rgs refs = [Obj n. Name n \<leftarrow> refs, map_of rgs n \<noteq> None]"

definition unresolved :: "(string \<times> Range) list \<Rightarrow> ref list \<Rightarrow> ref list" where
  "unresolved rgs refs =
     filter (\<lambda>r. case r of Name n \<Rightarrow> map_of rgs n = None | Obj k \<Rightarrow> True) refs"

text \<open>\<open>Character.link\<close>, and the method a Range object of either class runs for \<open>rg.link\<close>.\<close>

definition Character_link :: "Range \<Rightarrow> Timeline \<Rightarrow> Range res" where
  "Character_link rg tml =
     (case Range_link rg tml of
        Inl e \<Rightarrow> Inl e
      | Inr rg' \<Rightarrow>
          Inr (rg'\<lparr>parents := resolve (ranges tml) (parents rg')\<rparr>,
               if unresolved (ranges tml) (parents rg') \<noteq> []
               then [ParentLinkFailed (Range.name rg') (unresolved (ranges tml) (parents rg'))]
               else []))"

definition link_method :: "Range \<Rightarrow> Timeline \<Rightarrow> Range res" where
  "link_method rg tml =
     (case cls rg of
        CharacterClass \<Rightarrow> Character_link rg tml
      | RangeClass \<Rightarrow> (case Range_link rg tml of Inl e \<Rightarrow> Inl e | Inr rg' \<Rightarrow> Inr (rg', [])))"

text \<open>
  Lines 141 to 143: the loop over the positions of \<open>tml.ranges\<close> that are left; the
  object at position \<open>i\<close> is linked against the current state, then gets \<open>idx = i\<close>.
\<close>

fun link_ranges :: "nat list \<Rightarrow> Timeline \<Rightarrow> Timeline res" where
  "link_ranges [] tml = Inr (tml, [])"
| "link_ranges (i # js) tml =
     (case link_method (snd (ranges tml ! i)) tml of
        Inl e \<Rightarrow> Inl e
      | Inr (rg', ws) \<Rightarrow>
          warn ws (link_ranges js
            (tml\<lparr>ranges := (ranges tml)[i := (fst (ranges tml ! i), rg'\<lparr>Range.idx := Some i\<rparr>)]\<rparr>)))"

definition is_valid_Event :: "Event \<Rightarrow> bool" where
  "is_valid_Event ev = (time ev \<noteq> None)"

definition is_universal :: "Event \<Rightarrow> bool" where
  "is_universal ev = (from_rg ev = [] \<and> with_rg ev = [])"

text \<open>Lines 144 to 147: the events with a time, sorted by time (a stable sort).\<close>

definition cull_events :: "Timeline \<Rightarrow> Timeline res" where
  "cull_events tml =
     (let evs' = sort_key (\<lambda>ev. the (time ev)) (filter is_valid_Event (events tml))
      in Inr (tml\<lparr>events := evs'\<rparr>,
              if length evs' \<noteq> length (events tml)
              then [CulledEvents (length (events tml) - length evs')] else []))"

text \<open>
  \<open>sorted(self.with_rg, key=lambda rg: rg.idx)[-1]\<close>, as the key of that Range. The
  members are Range objects; comparing an \<open>idx\<close> that is \<open>None\<close> raises \<open>TypeError\<close>.
\<close>

definition range_idx :: "(string \<times> Range) list \<Rightarrow> string \<Rightarrow> nat option" where
  "range_idx rgs k = (case map_of rgs k of None \<Rightarrow> None | Some rg \<Rightarrow> Range.idx rg)"

definition last_by_idx :: "(string \<times> Range) list \<Rightarrow> ref list \<Rightarrow> error + string" where
  "last_by_idx rgs refs =
     (case [k. Obj k \<leftarrow> refs] of
        [] \<Rightarrow> Inl IndexError
      | [k] \<Rightarrow> Inr k
      | k # k' # ks \<Rightarrow>
          if list_ex (\<lambda>x. range_idx rgs x = None) (k # k' # ks) then Inl TypeError
          else Inr (last (sort_key (\<lambda>x. the (range_idx rgs x)) (k # k' # ks))))"

text \<open>\<open>Event.link\<close> for the event at position \<open>i\<close> of \<open>tml.events\<close>.\<close>

definition Event_link :: "nat \<Rightarrow> Timeline \<Rightarrow> Timeline res" where
  "Event_link i tml =
     (let ev = events tml ! i;
          from' = resolve (ranges tml) (from_rg ev);
          with' = resolve (ranges tml) (with_rg ev);
          ws = (if unresolved (ranges tml) (from_rg ev) \<noteq> []
                then [LinkFailed ''from_rg'' (unresolved (ranges tml) (from_rg ev))] else []) @
               (if unresolved (ranges tml) (with_rg ev) \<noteq> []
                then [LinkFailed ''with_rg'' (unresolved (ranges tml) (with_rg ev))] else []);
          tml' = tml\<lparr>events := (events tml)[i := ev\<lparr>from_rg := from', with_rg := with'\<rparr>]\<rparr>
      in if with' \<noteq> [] then
           (case last_by_idx (ranges tml) with' of
              Inl e \<Rightarrow> Inl e
            | Inr k \<Rightarrow>
                Inr (tml'\<lparr>ranges :=
                       AList.map_entry k
                         (\<lambda>rg. rg\<lparr>hanging_events := hanging_events rg @ [i]\<rparr>) (ranges tml)\<rparr>,
                     ws))
         else Inr (tml', ws))"

fun link_events :: "nat list \<Rightarrow> Timeline \<Rightarrow> Timeline res" where
  "link_events [] tml = Inr (tml, [])"
| "link_events (i # js) tml =
     (case Event_link i tml of
        Inl e \<Rightarrow> Inl e
      | Inr (tml', ws) \<Rightarrow> warn ws (link_events js tml'))"

text \<open>
  Lines 150 to 155, on the reversed list of events: the universal events are numbered
  from \<open>n\<close> on; the result is the list and the next number.
\<close>

fun number_universal :: "Event list \<Rightarrow> nat \<Rightarrow> Event list \<times> nat" where
  "number_universal [] n = ([], n)"
| "number_universal (ev # rest) n =
     (if is_universal ev then
        (case number_universal rest (Suc n) of (r, m) \<Rightarrow> (ev\<lparr>Event.idx := Some n\<rparr> # r, m))
      else (case number_universal rest n of (r, m) \<Rightarrow> (ev # r, m)))"

text \<open>
  Lines 156 to 160: the two constraints for a range and one of its parents. A parent is
  a Range object by now; \<open>par.name\<close> on a string raises \<open>AttributeError\<close>.
\<close>

definition born_after :: "string \<Rightarrow> string \<Rightarrow> Constraint" where
  "born_after rg par =
     new_Constraint (Some (rg @ ''_born_after_'' @ par)) (Some [SStr par]) (Some [SStr rg])"

definition born_predeath :: "string \<Rightarrow> string \<Rightarrow> Constraint" where
  "born_predeath rg par =
     new_Constraint (Some (rg @ ''_born_predeath_'' @ par)) (Some [SStr rg])
       (Some [SStr par, SInt (- 1), SStr ''end''])"

fun parent_constraints :: "string \<Rightarrow> ref list \<Rightarrow> error + Constraint list" where
  "parent_constraints rg [] = Inr []"
| "parent_constraints rg (Name n # pars) = Inl (AttributeError ''name'')"
| "parent_constraints rg (Obj par # pars) =
     (case parent_constraints rg pars of
        Inl e \<Rightarrow> Inl e
      | Inr cs \<Rightarrow> Inr (born_after rg par # born_predeath rg par # cs))"

fun link_constraints :: "Range list \<Rightarrow> error + Constraint list" where
  "link_constraints [] = Inr []"
| "link_constraints (rg # rgs) =
     (case (if cls rg = CharacterClass then parent_constraints (Range.name rg) (parents rg)
            else Inr []) of
        Inl e \<Rightarrow> Inl e
      | Inr cs \<Rightarrow>
          (case link_constraints rgs of Inl e \<Rightarrow> Inl e | Inr cs' \<Rightarrow> Inr (cs @ cs')))"

text \<open>\<open>Timeline.link\<close>.\<close>

definition link :: "Timeline \<Rightarrow> Timeline res" where
  "link tml =
     bind_w (link_ranges [0..<length (ranges tml)] tml) (\<lambda>tml1.
     bind_w (cull_events tml1) (\<lambda>tml2.
     bind_w (link_events [0..<length (events tml2)] tml2) (\<lambda>tml3.
       (case number_universal (rev (events tml3)) 0 of (revd, n) \<Rightarrow>
          (case link_constraints (map snd (ranges tml3)) of
             Inl e \<Rightarrow> Inl e
           | Inr cs \<Rightarrow>
               Inr (tml3\<lparr>events := rev revd, universal_evs := Some n,
                         constraints := constraints tml3 @ cs\<rparr>, []))))))"

subsection \<open>The script\<close>

text \<open>
  The script: tokenize the lines, parse, link, check. (\<open>layout\<close> and \<open>dump\<close> run between
  \<open>link\<close> and \<open>check\<close> and \<open>render\<close> after it; they are outside the core.)
\<close>

definition main ::
  "(string \<Rightarrow> real option) \<Rightarrow> (string \<Rightarrow> int option) \<Rightarrow> nat \<Rightarrow> string list \<Rightarrow> bool res" where
  "main pyfloat pyint d lines =
     bind_w (Timeline_from_tokens pyfloat (stream_of (tokenize (Some 4) lines))) (\<lambda>tml.
     bind_w (link tml) (\<lambda>tml'. check pyint d tml'))"

subsection \<open>Notions used in the statements\<close>

text \<open>A reference that is a Range object.\<close>

fun is_Obj :: "ref \<Rightarrow> bool" where
  "is_Obj (Obj k) = True"
| "is_Obj (Name n) = False"

text \<open>
  Two small documents: a Character with two parents that both exist, and a Character
  with one parent that exists and one that does not.
\<close>

definition two_parents :: Timeline where
  "two_parents = new_Timeline\<lparr>ranges :=
     [(''Mum'', new_Range CharacterClass ''Mum''),
      (''Dad'', new_Range CharacterClass ''Dad''),
      (''Kid'', (new_Range CharacterClass ''Kid'')\<lparr>parents := [Name ''Mum'', Name ''Dad'']\<rparr>)]\<rparr>"

definition one_parent :: Timeline where
  "one_parent = new_Timeline\<lparr>ranges :=
     [(''Mum'', new_Range CharacterClass ''Mum''),
      (''Kid'', (new_Range CharacterClass ''Kid'')\<lparr>parents := [Name ''Mum'', Name ''Ghost'']\<rparr>)]\<rparr>"

text \<open>
  An event without what linking writes into it (the two reference sets and \<open>idx\<close>):
  two event sequences with the same \<open>unlinked\<close> events hold the same events in the same
  order. \<open>refs_linked\<close>: every reference set of the document holds Range objects only, as
  after a link.
\<close>

definition unlinked :: "Event \<Rightarrow> Event" where
  "unlinked ev = ev\<lparr>from_rg := [], with_rg := [], Event.idx := None\<rparr>"

definition refs_linked :: "Timeline \<Rightarrow> bool" where
  "refs_linked tml =
     (list_all (\<lambda>rg. cls rg = CharacterClass \<longrightarrow> list_all is_Obj (parents rg))
        (map snd (ranges tml)) \<and>
      list_all (\<lambda>ev. list_all is_Obj (from_rg ev) \<and> list_all is_Obj (with_rg ev)) (events tml))"

text \<open>A document in which every name resolves: Bob, child of Ann, and one event.\<close>

definition met :: Timeline where
  "met = new_Timeline\<lparr>ranges :=
     [(''Ann'', new_Range CharacterClass ''Ann''),
      (''Bob'', (new_Range CharacterClass ''Bob'')\<lparr>parents := [Name ''Ann'']\<rparr>)],
     events := [new_Event\<lparr>time := Some 5, from_rg := [Name ''Ann''], with_rg := [Name ''Bob'']\<rparr>]\<rparr>"

section \<open>Evaluation on concrete inputs\<close>

text \<open>The definitions a concrete run of each phase unfolds.\<close>

lemmas tok_simps = tokenize_def line_tokens_def line_level_def lws_def lws_char_def count_char_def
  dent_def pop_levels.simps flush.simps strip_def isspace_def stream_of_def

lemmas parse_simps = Timeline_from_tokens_def Timeline_loop.simps split_def handlers_def
  Range_from_tokens_def Event_from_tokens_def Constraint_from_tokens_def Group_from_tokens_def
  Sequence_from_tokens_def range_directive_def range_finish_def sort_spans_def
  unhandled_directive_def BEGIN_WORDS_def END_WORDS_def float_arg_def warn_def hdr_name_def
  event_directive_def constraint_directive_def group_directive_def sequence_directive_def
  set_add_def read_block_def new_Timeline_def new_Range_def new_Event_def new_Constraint_def
  new_Group_def

lemmas link_simps = link_def bind_w_def link_method_def Character_link_def Range_link_def
  time_bounds_def time_values_def py_min_def py_max_def of_time_def to_time_def resolve_def
  unresolved_def cull_events_def is_valid_Event_def Event_link_def last_by_idx_def
  is_universal_def born_after_def born_predeath_def

lemmas check_simps = check_def is_valid_Constraint_def verify_def select_opt_def
  select_range_def select_event_def span_at_def getattr_span_def int_of_elem_def py_add_def
  py_less_def

section \<open>Properties of the tokenizer\<close>



lemma pop_levels_eq:
  "pop_levels lev s out =
     (remaining_levels lev s, out @ replicate (length s - length (remaining_levels lev s)) DEDENT)"
proof (induction lev s out rule: pop_levels.induct)
  case (1 lev s out)
  show ?case
  proof (cases "s \<noteq> [] \<and> last s > lev")
    case True
    then obtain ys y where s: "s = ys @ [y]" and y: "lev < y"
      by (metis append_butlast_last_id)
    have len: "length (remaining_levels lev ys) \<le> length ys"
      by (simp add: remaining_levels_def) (metis length_dropWhile_le length_rev)
    have rem: "remaining_levels lev s = remaining_levels lev ys"
      using s y by (simp add: remaining_levels_def)
    have "pop_levels lev s out = pop_levels lev ys (out @ [DEDENT])"
      using True s by (subst pop_levels.simps) simp
    also have "\<dots> = (remaining_levels lev ys,
        (out @ [DEDENT]) @ replicate (length ys - length (remaining_levels lev ys)) DEDENT)"
      using "1.IH" [OF True] s by simp
    also have "(out @ [DEDENT]) @ replicate (length ys - length (remaining_levels lev ys)) DEDENT
        = out @ replicate (length s - length (remaining_levels lev s)) DEDENT"
      using len s rem by (simp add: Suc_diff_le replicate_append_same)
    finally show ?thesis using rem by simp
  next
    case False
    then have "remaining_levels lev s = s"
      by (cases s rule: rev_cases) (auto simp: remaining_levels_def)
    with False show ?thesis by (subst pop_levels.simps) auto
  qed
qed

lemma remaining_levels_top:
  "remaining_levels lev s \<noteq> [] \<Longrightarrow> last (remaining_levels lev s) \<le> lev"
  unfolding remaining_levels_def
  by (metis hd_dropWhile last_rev not_le rev_is_Nil_conv rev_rev_ident)

lemma remaining_levels_prefix:
  "\<exists>zs. s = remaining_levels lev s @ zs"
  unfolding remaining_levels_def
  by (metis rev_append rev_rev_ident takeWhile_dropWhile_id)

lemma remaining_levels_hd:
  "remaining_levels lev s \<noteq> [] \<Longrightarrow> hd (remaining_levels lev s) = hd s"
  using remaining_levels_prefix [of s lev] by (metis hd_append2)

lemma remaining_levels_length: "length (remaining_levels lev s) \<le> length s"
  using remaining_levels_prefix [of s lev] by (metis le_add1 length_append)

lemma dent_unmatched:
  "s \<noteq> [] \<Longrightarrow>
   (\<exists>l r. snd (dent lev s) = Inl (ValueError (NoOuterIndentLevel l r))) =
   unmatched_level lev s"
  using remaining_levels_top [of lev s]
  by (auto simp: dent_def pop_levels_eq unmatched_level_def)

lemma dent_Inr:
  "s \<noteq> [] \<Longrightarrow> dent lev s = (out, Inr s') \<Longrightarrow>
     s' \<noteq> [] \<and> hd s' = hd s \<and> count_tok INDENT out + length s = count_tok DEDENT out + length s'"
  using remaining_levels_hd [of lev s] remaining_levels_length [of lev s]
  by (auto simp: dent_def pop_levels_eq count_tok_def split: if_splits)


lemma line_tokens_unmatched:
  assumes "fst st \<noteq> []"
  shows "(\<exists>l r. snd (line_tokens tabs st line) = Inl (ValueError (NoOuterIndentLevel l r))) =
         (\<exists>lev ot'. line_level tabs (snd st) line = Inr (lev, ot') \<and> unmatched_level lev (fst st))"
proof (cases "line_level tabs (snd st) line")
  case (Inl e)
  then show ?thesis
    by (auto simp: line_tokens_def line_level_def Let_def split: if_splits option.splits)
next
  case (Inr p)
  obtain lev ot' where p: "p = (lev, ot')" by (cases p)
  obtain out r where d: "dent lev (fst st) = (out, r)" by (cases "dent lev (fst st)")
  have "snd (line_tokens tabs st line) = (case r of Inl e \<Rightarrow> Inl e | Inr s \<Rightarrow> Inr (s, ot'))"
    using Inr p d by (simp add: line_tokens_def split: sum.splits)
  moreover have "(\<exists>l q. r = Inl (ValueError (NoOuterIndentLevel l q))) = unmatched_level lev (fst st)"
    using dent_unmatched [OF assms, of lev] d by simp
  ultimately show ?thesis using Inr p by (cases r) auto
qed

lemma line_tokens_Inr:
  assumes "fst st \<noteq> []" and "line_tokens tabs st line = (out, Inr st')"
  shows "fst st' \<noteq> [] \<and> hd (fst st') = hd (fst st) \<and>
         count_tok INDENT out + length (fst st) = count_tok DEDENT out + length (fst st')"
proof -
  from assms(2) obtain lev ot' o1 s' where
    ll: "line_level tabs (snd st) line = Inr (lev, ot')" and
    d: "dent lev (fst st) = (o1, Inr s')" and
    out: "out = o1 @ [Content (strip (drop (length (lws line)) line))]" and st': "st' = (s', ot')"
    by (auto simp: line_tokens_def split: sum.splits prod.splits)
  from dent_Inr [OF assms(1) d] out st' show ?thesis by (simp add: count_tok_def)
qed

lemma tokenize_loop_unmatched:
  "fst st \<noteq> [] \<Longrightarrow>
   (\<exists>l r. snd (tokenize_loop tabs st lines) = Inl (ValueError (NoOuterIndentLevel l r))) =
   (\<exists>pre line post out stk ot lev ot'.
      lines = pre @ line # post \<and> tokenize_loop tabs st pre = (out, Inr (stk, ot)) \<and>
      line_level tabs ot line = Inr (lev, ot') \<and> unmatched_level lev stk)"
  (is "_ \<Longrightarrow> ?L st lines = ?R st lines")
proof (induction lines arbitrary: st)
  case Nil
  show ?case by simp
next
  case (Cons x xs)
  obtain o1 r1 where lt: "line_tokens tabs st x = (o1, r1)" by (cases "line_tokens tabs st x")
  have here: "(\<exists>l r. r1 = Inl (ValueError (NoOuterIndentLevel l r))) =
      (\<exists>lev ot'. line_level tabs (snd st) x = Inr (lev, ot') \<and> unmatched_level lev (fst st))"
    using line_tokens_unmatched [OF Cons.prems, of tabs x] lt by simp
  show ?case
  proof (cases r1)
    case (Inl e)
    have L: "?L st (x # xs) = (\<exists>l r. r1 = Inl (ValueError (NoOuterIndentLevel l r)))"
      using lt Inl by simp
    have R: "?R st (x # xs) =
       (\<exists>lev ot'. line_level tabs (snd st) x = Inr (lev, ot') \<and> unmatched_level lev (fst st))"
    proof
      assume "?R st (x # xs)"
      then obtain pre line post out stk ot lev ot' where
        e: "x # xs = pre @ line # post" and t: "tokenize_loop tabs st pre = (out, Inr (stk, ot))"
        and l: "line_level tabs ot line = Inr (lev, ot')" and u: "unmatched_level lev stk"
        by blast
      have "pre = []"
      proof (cases pre)
        case (Cons p ps)
        with e have "p = x" by simp
        with t Cons lt Inl show ?thesis by simp
      qed simp
      with e t l u show "\<exists>lev ot'. line_level tabs (snd st) x = Inr (lev, ot') \<and> unmatched_level lev (fst st)"
        by auto
    next
      assume "\<exists>lev ot'. line_level tabs (snd st) x = Inr (lev, ot') \<and> unmatched_level lev (fst st)"
      then obtain lev ot' where "line_level tabs (snd st) x = Inr (lev, ot')" "unmatched_level lev (fst st)"
        by blast
      then have "x # xs = [] @ x # xs \<and> tokenize_loop tabs st [] = ([], Inr (fst st, snd st)) \<and>
          line_level tabs (snd st) x = Inr (lev, ot') \<and> unmatched_level lev (fst st)" by simp
      then show "?R st (x # xs)" by blast
    qed
    from L R here show ?thesis by simp
  next
    case (Inr st')
    from line_tokens_Inr [OF Cons.prems, of tabs x o1 st'] lt Inr have ne: "fst st' \<noteq> []" by simp
    have nothere: "\<not> (\<exists>lev ot'. line_level tabs (snd st) x = Inr (lev, ot') \<and> unmatched_level lev (fst st))"
      using here Inr by simp
    have L: "?L st (x # xs) = ?L st' xs"
      using lt Inr by (simp split: prod.splits)
    have R: "?R st (x # xs) = ?R st' xs"
    proof
      assume "?R st (x # xs)"
      then obtain pre line post out stk ot lev ot' where
        e: "x # xs = pre @ line # post" and t: "tokenize_loop tabs st pre = (out, Inr (stk, ot))"
        and l: "line_level tabs ot line = Inr (lev, ot')" and u: "unmatched_level lev stk"
        by blast
      show "?R st' xs"
      proof (cases pre)
        case Nil
        with e t l u nothere show ?thesis by auto
      next
        case (Cons p ps)
        with e have px: "p = x" and xs: "xs = ps @ line # post" by simp_all
        from t Cons px lt Inr obtain o2 where "tokenize_loop tabs st' ps = (o2, Inr (stk, ot))"
          by (auto split: prod.splits)
        with xs l u show ?thesis by blast
      qed
    next
      assume "?R st' xs"
      then obtain pre line post out stk ot lev ot' where
        e: "xs = pre @ line # post" and t: "tokenize_loop tabs st' pre = (out, Inr (stk, ot))"
        and l: "line_level tabs ot line = Inr (lev, ot')" and u: "unmatched_level lev stk"
        by blast
      have "x # xs = (x # pre) @ line # post" using e by simp
      moreover have "tokenize_loop tabs st (x # pre) = (o1 @ out, Inr (stk, ot))"
        using lt Inr t by simp
      ultimately show "?R st (x # xs)" using l u by blast
    qed
    from L R Cons.IH [OF ne] show ?thesis by simp
  qed
qed

lemma tokenize_loop_Inr:
  "fst st \<noteq> [] \<Longrightarrow> tokenize_loop tabs st lines = (out, Inr st') \<Longrightarrow>
     fst st' \<noteq> [] \<and> hd (fst st') = hd (fst st) \<and>
     count_tok INDENT out + length (fst st) = count_tok DEDENT out + length (fst st')"
proof (induction lines arbitrary: st out)
  case Nil
  then show ?case by (auto simp: count_tok_def)
next
  case (Cons x xs)
  from Cons.prems(2) obtain o1 s1 o2 where
    lt: "line_tokens tabs st x = (o1, Inr s1)" and
    tl: "tokenize_loop tabs s1 xs = (o2, Inr st')" and out: "out = o1 @ o2"
    by (auto split: prod.splits sum.splits)
  from line_tokens_Inr [OF Cons.prems(1) lt] have
    a: "fst s1 \<noteq> []" "hd (fst s1) = hd (fst st)"
       "count_tok INDENT o1 + length (fst st) = count_tok DEDENT o1 + length (fst s1)" by simp_all
  from Cons.IH [OF a(1) tl] a out show ?case by (simp add: count_tok_def)
qed

lemma flush_eq: "flush s out = (take 1 s, out @ replicate (length s - 1) DEDENT)"
proof (induction s out rule: flush.induct)
  case (1 s out)
  show ?case
  proof (cases "length s > 1")
    case True
    then obtain ys y where s: "s = ys @ [y]" and ys: "ys \<noteq> []"
      by (cases s rule: rev_cases) auto
    have "flush s out = flush ys (out @ [DEDENT])" using True s by (subst flush.simps) simp
    also have "\<dots> = (take 1 ys, (out @ [DEDENT]) @ replicate (length ys - 1) DEDENT)"
      using "1.IH" [OF True] s by simp
    finally show ?thesis using s ys
      by (cases ys) (simp_all add: replicate_append_same)
  next
    case False
    then show ?thesis by (subst flush.simps) (cases s, auto)
  qed
qed



text \<open>
  C6. Tokenization ends with the "no outer indent level" error exactly when it reaches a
  line whose level is below the top of the open-level stack and, after the levels above
  it are popped, differs from the top that remains. Open levels \<open>[0, 2, 4]\<close> followed by a
  line at level 3 is the example: one \<open>DEDENT\<close>, then the error; no level is inserted.
\<close>

theorem tokenize_unmatched_indentation:
  "((\<exists>l r. snd (tokenize tabs lines) = Inl (ValueError (NoOuterIndentLevel l r))) =
    (\<exists>pre line post out stk ot lev ot'.
       lines = pre @ line # post \<and>
       tokenize_loop tabs ([0], True) pre = (out, Inr (stk, ot)) \<and>
       line_level tabs ot line = Inr (lev, ot') \<and> unmatched_level lev stk)) \<and>
   dent 3 [0, 2, 4] = ([DEDENT], Inl (ValueError (NoOuterIndentLevel 3 [0, 2])))"
proof
  have "snd (tokenize tabs lines) =
      (case snd (tokenize_loop tabs ([0], True) lines) of Inl e \<Rightarrow> Inl e | Inr st \<Rightarrow> Inr (take 1 (fst st)))"
    by (simp add: tokenize_def flush_eq split: prod.splits sum.splits)
  then have "(\<exists>l r. snd (tokenize tabs lines) = Inl (ValueError (NoOuterIndentLevel l r))) =
      (\<exists>l r. snd (tokenize_loop tabs ([0], True) lines) = Inl (ValueError (NoOuterIndentLevel l r)))"
    by (cases "snd (tokenize_loop tabs ([0], True) lines)") auto
  also have "\<dots> = (\<exists>pre line post out stk ot lev ot'.
       lines = pre @ line # post \<and>
       tokenize_loop tabs ([0], True) pre = (out, Inr (stk, ot)) \<and>
       line_level tabs ot line = Inr (lev, ot') \<and> unmatched_level lev stk)"
    by (rule tokenize_loop_unmatched) simp
  finally show "(\<exists>l r. snd (tokenize tabs lines) = Inl (ValueError (NoOuterIndentLevel l r))) =
    (\<exists>pre line post out stk ot lev ot'.
       lines = pre @ line # post \<and>
       tokenize_loop tabs ([0], True) pre = (out, Inr (stk, ot)) \<and>
       line_level tabs ot line = Inr (lev, ot') \<and> unmatched_level lev stk)" .
next
  show "dent 3 [0, 2, 4] = ([DEDENT], Inl (ValueError (NoOuterIndentLevel 3 [0, 2])))"
    by (simp add: dent_def pop_levels.simps)
qed

theorem tokenize_unmatched_indentation_witness:
  "tokenize (Some 4) [''a'', ''  b'', ''    c'', ''   d'', ''e''] =
     ([Content ''a'', INDENT, Content ''b'', INDENT, Content ''c'', DEDENT],
      Inl (ValueError (NoOuterIndentLevel 3 [0, 2]))) \<and>
   (\<exists>pre line post out stk ot lev ot'.
       [''a'', ''  b'', ''    c'', ''   d'', ''e''] = pre @ line # post \<and>
       tokenize_loop (Some 4) ([0], True) pre = (out, Inr (stk, ot)) \<and>
       line_level (Some 4) ot line = Inr (lev, ot') \<and> unmatched_level lev stk)"
proof -
  have t: "tokenize (Some 4) [''a'', ''  b'', ''    c'', ''   d'', ''e''] =
     ([Content ''a'', INDENT, Content ''b'', INDENT, Content ''c'', DEDENT],
      Inl (ValueError (NoOuterIndentLevel 3 [0, 2])))"
    by (simp add: tokenize_def line_tokens_def line_level_def lws_def lws_char_def count_char_def
        dent_def pop_levels.simps strip_def isspace_def)
  then have "\<exists>l r. snd (tokenize (Some 4) [''a'', ''  b'', ''    c'', ''   d'', ''e'']) =
      Inl (ValueError (NoOuterIndentLevel l r))" by simp
  with tokenize_unmatched_indentation [THEN conjunct1, of "Some 4" "[''a'', ''  b'', ''    c'', ''   d'', ''e'']"] t
  show ?thesis by simp
qed

text \<open>
  C7. When the tokenizer runs to the end without raising, it has yielded as many
  \<open>INDENT\<close>s as \<open>DEDENT\<close>s: after the last line it yields one \<open>DEDENT\<close> for each level of
  the stack above the base, and the stack is back to \<open>[0]\<close>.
\<close>

theorem tokenize_indent_dedent_balance:
  "tokenize tabs lines = (toks, Inr s) \<Longrightarrow>
     count_tok INDENT toks = count_tok DEDENT toks \<and> s = [0] \<and>
     (\<exists>body stk ot. tokenize_loop tabs ([0], True) lines = (body, Inr (stk, ot)) \<and>
        toks = body @ replicate (length stk - 1) DEDENT)"
proof -
  assume a: "tokenize tabs lines = (toks, Inr s)"
  then obtain body stk ot where
    l: "tokenize_loop tabs ([0], True) lines = (body, Inr (stk, ot))" and
    toks: "toks = body @ replicate (length stk - 1) DEDENT" and s: "s = take 1 stk"
    by (auto simp: tokenize_def flush_eq split: prod.splits sum.splits)
  from tokenize_loop_Inr [OF _ l] have
    ne: "stk \<noteq> []" and hd: "hd stk = 0" and
    cnt: "count_tok INDENT body + 1 = count_tok DEDENT body + length stk" by simp_all
  from ne hd s have "s = [0]" by (cases stk) simp_all
  moreover from cnt ne toks have "count_tok INDENT toks = count_tok DEDENT toks"
    by (cases stk) (simp_all add: count_tok_def)
  ultimately show ?thesis using l toks by simp
qed

theorem tokenize_indent_dedent_balance_witness:
  "tokenize (Some 4) [''a'', ''  b'', ''    c''] =
     ([Content ''a'', INDENT, Content ''b'', INDENT, Content ''c'', DEDENT, DEDENT], Inr [0]) \<and>
   count_tok INDENT [Content ''a'', INDENT, Content ''b'', INDENT, Content ''c'', DEDENT, DEDENT] =
   count_tok DEDENT [Content ''a'', INDENT, Content ''b'', INDENT, Content ''c'', DEDENT, DEDENT]"
proof -
  have t: "tokenize (Some 4) [''a'', ''  b'', ''    c''] =
     ([Content ''a'', INDENT, Content ''b'', INDENT, Content ''c'', DEDENT, DEDENT], Inr [0])"
    by (simp add: tokenize_def line_tokens_def line_level_def lws_def lws_char_def count_char_def
        dent_def pop_levels.simps flush.simps strip_def isspace_def)
  from tokenize_indent_dedent_balance [OF t] t show ?thesis by simp
qed

section \<open>Properties of \<open>read_block\<close>\<close>

lemma call_all_Cons:
  "call_all cb (t # ts) s = call_all cb ts (case cb of None \<Rightarrow> s | Some f \<Rightarrow> f t s)"
  by (simp add: call_all_def split: option.splits)

lemma read_block_loop_nested:
  "well_nested n body \<Longrightarrow>
     read_block_loop (1 + int n) cb fin (body @ DEDENT # rest) s =
       Inr ((rest, fin), call_all cb body s)"
proof (induction body arbitrary: n s)
  case Nil
  then show ?case by (simp add: call_all_def split: option.splits)
next
  case (Cons t ts)
  show ?case
  proof (cases t)
    case INDENT
    with Cons.prems have "well_nested (Suc n) ts" by simp
    from Cons.IH [OF this] INDENT show ?thesis
      by (simp add: call_all_Cons add.commute)
  next
    case DEDENT
    with Cons.prems have n: "n > 0" and w: "well_nested (n - 1) ts" by simp_all
    from n have e: "1 + int n - 1 = 1 + int (n - 1)" by simp
    from Cons.IH [OF w] DEDENT n show ?thesis
      by (simp add: call_all_Cons e Let_def)
  next
    case (Content c)
    with Cons.prems have "well_nested n ts" by simp
    from Cons.IH [OF this] Content show ?thesis
      by (simp add: call_all_Cons)
  qed
qed

text \<open>
  C9, as stated, fails: started right after the opening \<open>INDENT\<close>, \<open>read_block\<close> counts the
  block's own closing \<open>DEDENT\<close> down to \<open>-1\<close>, does not stop there, hands that \<open>DEDENT\<close> to
  the callback and goes on consuming what follows the block.
\<close>

theorem read_block_after_indent_counterexample:
  "well_nested 0 [Content ''a''] \<and>
   read_block (Some (\<lambda>t s. s @ [t])) ([Content ''a'', DEDENT, Content ''b''], None) [] =
     Inr (([], None), [Content ''a'', DEDENT, Content ''b'']) \<and>
   read_block (Some (\<lambda>t s. s @ [t])) ([Content ''a'', DEDENT, Content ''b''], None) [] \<noteq>
     Inr (([Content ''b''], None), [Content ''a'', DEDENT])"
  by (simp add: read_block_def)

text \<open>
  C9, amended. Started right before the opening \<open>INDENT\<close> of a block (right after the
  block's header line, where \<open>Timeline.from_tokens\<close> calls it), \<open>read_block\<close> consumes every
  token up to and including the matching \<open>DEDENT\<close>, leaves the stream just past it, and
  has called the callback, in order, on every token consumed but that last \<open>DEDENT\<close>.
\<close>

theorem read_block_skips_block:
  "well_nested 0 body \<Longrightarrow>
     read_block cb (INDENT # body @ DEDENT # rest, fin) s =
       Inr ((rest, fin), call_all cb (INDENT # body) s)"
  using read_block_loop_nested [of 0 body cb fin rest "case cb of None \<Rightarrow> s | Some f \<Rightarrow> f INDENT s"]
  by (simp add: read_block_def call_all_Cons)

theorem read_block_skips_block_witness:
  "well_nested 0 [Content ''a'', INDENT, Content ''x'', DEDENT, Content ''c''] \<and>
   read_block (Some (\<lambda>t s. s @ [t]))
     ([INDENT, Content ''a'', INDENT, Content ''x'', DEDENT, Content ''c'', DEDENT, Content ''b''],
      None) [] =
     Inr (([Content ''b''], None),
          [INDENT, Content ''a'', INDENT, Content ''x'', DEDENT, Content ''c''])"
proof -
  have w: "well_nested 0 [Content ''a'', INDENT, Content ''x'', DEDENT, Content ''c'']"
    by simp
  from read_block_skips_block [OF w, of "Some (\<lambda>t s. s @ [t])" "[Content ''b'']" None "[]"] w
  show ?thesis by (simp add: call_all_def)
qed

section \<open>Properties of \<open>Timeline.add\<close>\<close>

text \<open>
  C8. Registering a Range under a name already present overwrites the entry and reports
  a warning. Registering a Group under a name already present overwrites the entry too,
  but \<open>add\<close> reports nothing for it: whatever the groups already registered, the list of
  warnings is empty. The evaluations below register two ranges \<open>R\<close> and two groups \<open>G\<close>,
  first as objects, then parsed from two \<open>char R\<close> blocks and two \<open>group G\<close> blocks.
\<close>

theorem add_group_overwrite_silent:
  "(\<exists>tml'. add tml (OGroup grp) = Inr (tml', []) \<and>
      map_of (groups tml') (Group.name grp) = Some grp) \<and>
   bind_w (add new_Timeline (ORange (new_Range CharacterClass ''R'')))
       (\<lambda>tml. add tml (ORange ((new_Range CharacterClass ''R'')\<lparr>ambient := True\<rparr>))) =
     Inr (new_Timeline\<lparr>ranges := [(''R'', (new_Range CharacterClass ''R'')\<lparr>ambient := True\<rparr>)]\<rparr>,
          [RangeOverwrites ''R'']) \<and>
   bind_w (add new_Timeline (OGroup \<lparr>Group.name = Some ''G'', evs = [[SStr ''a'']]\<rparr>))
       (\<lambda>tml. add tml (OGroup \<lparr>Group.name = Some ''G'', evs = [[SStr ''b'']]\<rparr>)) =
     Inr (new_Timeline\<lparr>groups := [(Some ''G'', \<lparr>Group.name = Some ''G'', evs = [[SStr ''b'']]\<rparr>)]\<rparr>,
          []) \<and>
   Timeline_from_tokens pyfloat (stream_of (tokenize (Some 4)
       [''char R'', CHR 0x09 # ''gender f'', ''char R'', CHR 0x09 # ''ambient''])) =
     Inr (new_Timeline\<lparr>ranges := [(''R'', (new_Range CharacterClass ''R'')\<lparr>ambient := True\<rparr>)]\<rparr>,
          [RangeOverwrites ''R'']) \<and>
   Timeline_from_tokens pyfloat (stream_of (tokenize (Some 4)
       [''group G'', CHR 0x09 # ''event a'', ''group G'', CHR 0x09 # ''event b''])) =
     Inr (new_Timeline\<lparr>groups := [(Some ''G'', \<lparr>Group.name = Some ''G'', evs = [[SStr ''b'']]\<rparr>)]\<rparr>,
          [])"
proof (intro conjI)
  show "\<exists>tml'. add tml (OGroup grp) = Inr (tml', []) \<and>
      map_of (groups tml') (Group.name grp) = Some grp"
    by (simp add: update_Some_unfold)
qed (simp_all add: bind_w_def tok_simps parse_simps update_Some_unfold)

section \<open>Properties of \<open>Range.from_tokens\<close>\<close>

lemma sort_spans_set: "sort_spans sps = Inr sps' \<Longrightarrow> set sps' = set sps"
  by (auto simp: sort_spans_def split: if_splits)

lemma unhandled_directive_cls:
  "unhandled_directive inst parts = Inr (inst', ws) \<Longrightarrow> cls inst' = cls inst"
  by (auto simp: unhandled_directive_def split: range_class.splits list.splits if_splits)

lemma range_directive_pending:
  assumes "cmd \<notin> BEGIN_WORDS (cls inst)" "cmd \<notin> END_WORDS (cls inst)"
  shows "range_directive pyfloat (inst, cur) (cmd # args) =
     (case range_directive pyfloat (inst, None) (cmd # args) of
        Inl e \<Rightarrow> Inl e
      | Inr ((inst', c), ws) \<Rightarrow> Inr ((inst', cur), ws))"
    and "range_directive pyfloat (inst, None) (cmd # args) = Inr ((inst', c), ws) \<Longrightarrow>
         cls inst' = cls inst"
  using assms
  by (auto simp: range_directive_def split: sum.splits prod.splits if_splits
      dest: unhandled_directive_cls)

lemma Range_loop_pending:
  "list_all (keeps_pending (cls inst)) mid \<Longrightarrow>
     Range_loop pyfloat fin (inst, Some sp) (mid @ DEDENT # tok) =
       Range_loop pyfloat fin (inst, None) (mid @ DEDENT # tok) \<and>
     Range_loop pyfloat fin (inst, Some sp) mid = Range_loop pyfloat fin (inst, None) mid"
proof (induction mid arbitrary: inst)
  case Nil
  show ?case by (simp split: option.splits)
next
  case (Cons t ts)
  show ?case
  proof (cases t)
    case INDENT
    with Cons show ?thesis by simp
  next
    case DEDENT
    with Cons.prems show ?thesis by (simp add: keeps_pending_def)
  next
    case (Content l)
    show ?thesis
    proof (cases "l = []")
      case True
      with Cons Content show ?thesis by simp
    next
      case False
      show ?thesis
      proof (cases "split l")
        case Nil
        with Content False show ?thesis by (simp add: range_directive_def)
      next
        case (Cons cmd args)
        from Cons.prems have kp: "keeps_pending (cls inst) t"
          and rest: "list_all (keeps_pending (cls inst)) ts" by simp_all
        from kp Content Cons
        have nb: "cmd \<notin> BEGIN_WORDS (cls inst)" and ne: "cmd \<notin> END_WORDS (cls inst)"
          by (simp_all add: keeps_pending_def)
        note d = range_directive_pending [OF nb ne, of pyfloat]
        show ?thesis
        proof (cases "range_directive pyfloat (inst, None) (cmd # args)")
          case (Inl e)
          with d(1) [of "Some sp" args] Content False Cons show ?thesis by simp
        next
          case (Inr r)
          obtain inst' c ws where r: "r = ((inst', c), ws)" by (cases r) auto
          from d(2) [of args inst' c ws] Inr r have cl: "cls inst' = cls inst" by simp
          from Inr r have c: "c = None"
            using nb ne by (auto simp: range_directive_def split: sum.splits prod.splits if_splits)
          from d(1) [of "Some sp" args] Inr r
          have s: "range_directive pyfloat (inst, Some sp) (cmd # args) = Inr ((inst', Some sp), ws)"
            by simp
          from rest cl have "list_all (keeps_pending (cls inst')) ts" by simp
          from Cons.IH [OF this] s Inr r c Content False Cons show ?thesis by simp
        qed
      qed
    qed
  qed
qed

text \<open>
  C10. A span that is still pending when a Range or Character block ends is dropped
  without a trace. Once a span is pending and only tokens follow that neither start nor
  end a span, the block gives, at its \<open>DEDENT\<close> or at the end of input, the same Range, the
  same rest of the stream and the same warnings as if no span had been pending. At the
  end of the block the span list is the sorted list of the spans closed so far, and the
  warnings are none at a \<open>DEDENT\<close> and the one about the end of input otherwise. A block
  \<open>born 5\<close>, \<open>class x\<close> gives a Character with no span and no warning.
\<close>

theorem pending_span_dropped:
  "(list_all (keeps_pending (cls inst)) mid \<longrightarrow>
      Range_loop pyfloat fin (inst, Some sp) (mid @ DEDENT # tok) =
        Range_loop pyfloat fin (inst, None) (mid @ DEDENT # tok) \<and>
      Range_loop pyfloat fin (inst, Some sp) mid = Range_loop pyfloat fin (inst, None) mid) \<and>
   (sort_spans (spans inst) = Inr sps \<longrightarrow>
      set sps = set (spans inst) \<and>
      Range_loop pyfloat fin (inst, Some sp) (DEDENT # tok) =
        Inr ((inst\<lparr>spans := sps\<rparr>, (tok, fin)), []) \<and>
      Range_loop pyfloat None (inst, Some sp) [] =
        Inr ((inst\<lparr>spans := sps\<rparr>, ([], None)), [EOFEndsBlock ''range''])) \<and>
   (pyfloat ''5'' = Some 5 \<longrightarrow>
      Range_from_tokens CharacterClass pyfloat
        ([Content ''born 5'', Content ''class x'', DEDENT, Content ''event''], None)
        [''char'', ''Kid''] =
      Inr (((new_Range CharacterClass ''Kid'')\<lparr>Range.classes := {''x''}\<rparr>,
            ([Content ''event''], None)), []))"
proof (intro conjI impI)
  assume "list_all (keeps_pending (cls inst)) mid"
  from Range_loop_pending [OF this]
  show "Range_loop pyfloat fin (inst, Some sp) (mid @ DEDENT # tok) =
        Range_loop pyfloat fin (inst, None) (mid @ DEDENT # tok)"
    "Range_loop pyfloat fin (inst, Some sp) mid = Range_loop pyfloat fin (inst, None) mid"
    by simp_all
next
  assume "sort_spans (spans inst) = Inr sps"
  then show "set sps = set (spans inst)"
    "Range_loop pyfloat fin (inst, Some sp) (DEDENT # tok) = Inr ((inst\<lparr>spans := sps\<rparr>, (tok, fin)), [])"
    "Range_loop pyfloat None (inst, Some sp) [] =
        Inr ((inst\<lparr>spans := sps\<rparr>, ([], None)), [EOFEndsBlock ''range''])"
    by (simp_all add: range_finish_def sort_spans_set)
next
  assume "pyfloat ''5'' = Some 5"
  then show "Range_from_tokens CharacterClass pyfloat
        ([Content ''born 5'', Content ''class x'', DEDENT, Content ''event''], None)
        [''char'', ''Kid''] =
      Inr (((new_Range CharacterClass ''Kid'')\<lparr>Range.classes := {''x''}\<rparr>,
            ([Content ''event''], None)), [])"
    by (simp add: range_finish_def Range_from_tokens_def split_def
      isspace_def range_directive_def BEGIN_WORDS_def END_WORDS_def float_arg_def warn_def
      new_Range_def sort_spans_def)
qed

theorem pending_span_dropped_witness:
  "list_all (keeps_pending CharacterClass) [Content ''class x'', Content ''gender f''] \<and>
   Range_loop (\<lambda>s. if s = ''5'' then Some 5 else None) None
     (new_Range CharacterClass ''Kid'',
      Some \<lparr>start = Some 5, sword = ''born'', end' = None, eword = None\<rparr>)
     ([Content ''class x'', Content ''gender f''] @ DEDENT # [Content ''event'']) =
   Range_loop (\<lambda>s. if s = ''5'' then Some 5 else None) None
     (new_Range CharacterClass ''Kid'', None)
     ([Content ''class x'', Content ''gender f''] @ DEDENT # [Content ''event'']) \<and>
   sort_spans [] = Inr [] \<and>
   Range_loop (\<lambda>s. if s = ''5'' then Some 5 else None) None
     (new_Range CharacterClass ''Kid'',
      Some \<lparr>start = Some 5, sword = ''born'', end' = None, eword = None\<rparr>) [] =
     Inr ((new_Range CharacterClass ''Kid'', ([], None)), [EOFEndsBlock ''range'']) \<and>
   Range_from_tokens CharacterClass (\<lambda>s. if s = ''5'' then Some 5 else None)
        ([Content ''born 5'', Content ''class x'', DEDENT, Content ''event''], None)
        [''char'', ''Kid''] =
      Inr (((new_Range CharacterClass ''Kid'')\<lparr>Range.classes := {''x''}\<rparr>,
            ([Content ''event''], None)), [])"
proof -
  let ?f = "\<lambda>s. if s = ''5'' then Some (5::real) else None"
  let ?mid = "[Content ''class x'', Content ''gender f'']"
  have k: "list_all (keeps_pending (cls (new_Range CharacterClass ''Kid''))) ?mid"
    by (simp add: keeps_pending_def split_def isspace_def BEGIN_WORDS_def END_WORDS_def
        new_Range_def)
  have s: "sort_spans (spans (new_Range CharacterClass ''Kid'')) = Inr []"
    by (simp add: sort_spans_def new_Range_def)
  have f: "?f ''5'' = Some 5" by simp
  note t = pending_span_dropped [of "new_Range CharacterClass ''Kid''" ?mid ?f None
      "\<lparr>start = Some 5, sword = ''born'', end' = None, eword = None\<rparr>" "[Content ''event'']" "[]"]
  from t [THEN conjunct1, rule_format, OF k, THEN conjunct1]
       t [THEN conjunct2, THEN conjunct1, rule_format, OF s]
       t [THEN conjunct2, THEN conjunct2, rule_format, OF f] k
  show ?thesis by (simp add: sort_spans_def new_Range_def)
qed

section \<open>Properties of \<open>Constraint.verify\<close>\<close>







section \<open>Properties of \<open>Timeline.link\<close>\<close>

lemma resolve_Obj: "list_all is_Obj (resolve rgs refs)"
  by (induction refs) (auto simp: resolve_def split: ref.splits)

lemma resolve_of_Obj: "list_all is_Obj refs \<Longrightarrow> resolve rgs refs = []"
proof (induction refs)
  case Nil
  show ?case by (simp add: resolve_def)
next
  case (Cons r rs)
  then show ?case by (cases r) (auto simp: resolve_def)
qed

lemma unresolved_of_Obj: "list_all is_Obj refs \<Longrightarrow> unresolved rgs refs = refs"
proof (induction refs)
  case Nil
  show ?case by (simp add: unresolved_def)
next
  case (Cons r rs)
  then show ?case by (cases r) (auto simp: unresolved_def)
qed

lemma Range_link_fields:
  "Range_link rg tml = Inr rg' \<Longrightarrow>
     cls rg' = cls rg \<and> Range.name rg' = Range.name rg \<and> Range.idx rg' = Range.idx rg \<and>
     parents rg' = parents rg \<and> hanging_events rg' = hanging_events rg \<and> ambient rg' = ambient rg"
  by (auto simp: Range_link_def split: if_splits sum.splits prod.splits)

lemma link_method_fields:
  "link_method rg tml = Inr (rg', ws) \<Longrightarrow>
     cls rg' = cls rg \<and> Range.name rg' = Range.name rg \<and> Range.idx rg' = Range.idx rg \<and>
     hanging_events rg' = hanging_events rg \<and> ambient rg' = ambient rg \<and>
     parents rg' = (if cls rg = CharacterClass then resolve (ranges tml) (parents rg) else parents rg)"
  by (auto simp: link_method_def Character_link_def split: range_class.splits sum.splits
      dest!: Range_link_fields)

lemma link_ranges_frame:
  "link_ranges js tml = Inr (tml', ws) \<Longrightarrow>
     events tml' = events tml \<and> constraints tml' = constraints tml \<and>
     groups tml' = groups tml \<and> universal_evs tml' = universal_evs tml \<and>
     map fst (ranges tml') = map fst (ranges tml)"
proof (induction js arbitrary: tml ws)
  case Nil
  then show ?case by simp
next
  case (Cons i js)
  from Cons.prems obtain rg' w1 w2 where
    m: "link_method (snd (ranges tml ! i)) tml = Inr (rg', w1)" and
    r: "link_ranges js (tml\<lparr>ranges := (ranges tml)[i := (fst (ranges tml ! i), rg'\<lparr>Range.idx := Some i\<rparr>)]\<rparr>)
          = Inr (tml', w2)"
    by (auto simp: warn_def split: sum.splits prod.splits)
  from Cons.IH [OF r] show ?case
    by (simp add: map_update) (metis list_update_id map_update)
qed


lemma Event_link_frame:
  "Event_link i tml = Inr (tml', ws) \<Longrightarrow>
     constraints tml' = constraints tml \<and> groups tml' = groups tml \<and>
     universal_evs tml' = universal_evs tml \<and>
     map fst (ranges tml') = map fst (ranges tml) \<and>
     map (\<lambda>p. (snd p)\<lparr>hanging_events := []\<rparr>) (ranges tml') =
       map (\<lambda>p. (snd p)\<lparr>hanging_events := []\<rparr>) (ranges tml) \<and>
     events tml' = (events tml)[i := (events tml ! i)
        \<lparr>from_rg := resolve (ranges tml) (from_rg (events tml ! i)),
         with_rg := resolve (ranges tml) (with_rg (events tml ! i))\<rparr>]"
proof -
  have me: "map fst (AList.map_entry k f al) = map fst al" for k and f :: "Range \<Rightarrow> Range" and al
    by (induction al) auto
  have mc: "map (\<lambda>p. (snd p)\<lparr>hanging_events := []\<rparr>)
        (AList.map_entry k (\<lambda>rg. rg\<lparr>hanging_events := hanging_events rg @ [i]\<rparr>) al) =
      map (\<lambda>p. (snd p)\<lparr>hanging_events := []\<rparr>) al" for k al
    by (induction al) auto
  assume "Event_link i tml = Inr (tml', ws)"
  then show ?thesis
    by (auto simp: Event_link_def Let_def me mc split: if_splits sum.splits)
qed

lemma resolve_keys: "map fst rgs = map fst rgs' \<Longrightarrow> resolve rgs refs = resolve rgs' refs"
proof -
  assume k: "map fst rgs = map fst rgs'"
  have m: "(map_of rgs n = None) = (map_of rgs' n = None)" for n
    by (metis k map_of_eq_None_iff set_map)
  show ?thesis
  proof (induction refs)
    case Nil
    show ?case by (simp add: resolve_def)
  next
    case (Cons r rs)
    then show ?case using m by (cases r) (auto simp: resolve_def)
  qed
qed

lemma link_events_frame:
  "link_events js tml = Inr (tml', ws) \<Longrightarrow>
     constraints tml' = constraints tml \<and> groups tml' = groups tml \<and>
     universal_evs tml' = universal_evs tml \<and>
     map fst (ranges tml') = map fst (ranges tml) \<and>
     map (\<lambda>p. (snd p)\<lparr>hanging_events := []\<rparr>) (ranges tml') =
       map (\<lambda>p. (snd p)\<lparr>hanging_events := []\<rparr>) (ranges tml) \<and>
     length (events tml') = length (events tml)"
proof (induction js arbitrary: tml ws)
  case Nil
  then show ?case by simp
next
  case (Cons i js)
  from Cons.prems obtain t1 w1 w2 where
    e: "Event_link i tml = Inr (t1, w1)" and r: "link_events js t1 = Inr (tml', w2)"
    by (auto simp: warn_def split: sum.splits prod.splits)
  from Event_link_frame [OF e] Cons.IH [OF r] show ?case by simp
qed

lemma parent_constraints_Inr:
  "parent_constraints rg pars = Inr cs \<Longrightarrow>
     cs = concat (map (\<lambda>par. [born_after rg par, born_predeath rg par]) [k. Obj k \<leftarrow> pars])"
proof (induction pars arbitrary: cs)
  case Nil
  then show ?case by simp
next
  case (Cons p ps)
  then show ?case by (cases p) (auto split: sum.splits)
qed

lemma link_constraints_Inr:
  "link_constraints rgs = Inr cs \<Longrightarrow>
     cs = concat (map (\<lambda>rg. if cls rg = CharacterClass
                            then concat (map (\<lambda>par. [born_after (Range.name rg) par,
                                                      born_predeath (Range.name rg) par])
                                           [k. Obj k \<leftarrow> parents rg])
                            else []) rgs)"
proof (induction rgs arbitrary: cs)
  case Nil
  then show ?case by simp
next
  case (Cons rg rgs)
  then show ?case
    by (auto split: sum.splits if_splits dest!: parent_constraints_Inr)
qed

lemma upt_3: "[0..<3] = [0, 1, 2]"
  by (simp add: upt_rec)

lemma upt_2: "[0..<2] = [0, 1]"
  by (simp add: upt_rec)

text \<open>
  C5, as stated, fails: a Character with two resolved parents gets four synthesized
  Constraints, two for each parent.
\<close>

theorem link_two_parents_counterexample:
  "\<exists>tml'. link two_parents = Inr (tml', []) \<and>
     map Range.name (filter (\<lambda>rg. parents rg \<noteq> []) (map snd (ranges tml'))) = [''Kid''] \<and>
     constraints two_parents = [] \<and>
     map Constraint.name (constraints tml') =
       [Some ''Kid_born_after_Mum'', Some ''Kid_born_predeath_Mum'',
        Some ''Kid_born_after_Dad'', Some ''Kid_born_predeath_Dad'']"
  by (simp add: link_def two_parents_def bind_w_def new_Timeline_def new_Range_def upt_3
      link_method_def Character_link_def Range_link_def resolve_def unresolved_def warn_def
      cull_events_def born_after_def born_predeath_def new_Constraint_def)

text \<open>
  C5, amended. For every Character and each of its resolved parents, linking
  synthesizes exactly two Constraints and appends them to the Document's constraints:
  the constraints after linking are those before it followed, for each Character in
  the order of the ranges and each Range object among its parents, by
  \<open>born_after\<close> (before \<open>[parent]\<close>, after \<open>[character]\<close>) and \<open>born_predeath\<close>
  (before \<open>[character]\<close>, after \<open>[parent, -1, end]\<close>), both with offset 0 and not strict.
\<close>

theorem link_parent_constraints:
  "(link tml = Inr (tml', ws) \<longrightarrow>
     constraints tml' = constraints tml @
       concat (map (\<lambda>rg. if cls rg = CharacterClass
                          then concat (map (\<lambda>par. [born_after (Range.name rg) par,
                                                    born_predeath (Range.name rg) par])
                                         [k. Obj k \<leftarrow> parents rg])
                          else []) (map snd (ranges tml')))) \<and>
   born_after c p =
     \<lparr>Constraint.name = Some (c @ ''_born_after_'' @ p), before = Some [SStr p],
      after = Some [SStr c], offset = 0, strict = False\<rparr> \<and>
   born_predeath c p =
     \<lparr>Constraint.name = Some (c @ ''_born_predeath_'' @ p), before = Some [SStr c],
      after = Some [SStr p, SInt (- 1), SStr ''end''], offset = 0, strict = False\<rparr>"
proof (intro conjI impI)
  assume "link tml = Inr (tml', ws)"
  then obtain t1 w1 t2 w2 t3 w3 revd n cs where
    p1: "link_ranges [0..<length (ranges tml)] tml = Inr (t1, w1)" and
    p2: "cull_events t1 = Inr (t2, w2)" and
    p3: "link_events [0..<length (events t2)] t2 = Inr (t3, w3)" and
    p5: "link_constraints (map snd (ranges t3)) = Inr cs" and
    res: "tml' = t3\<lparr>events := rev revd, universal_evs := Some n,
                         constraints := constraints t3 @ cs\<rparr>"
    by (auto simp: link_def bind_w_def split: sum.splits prod.splits)
  from p2 have c2: "constraints t2 = constraints t1"
    by (auto simp: cull_events_def Let_def)
  from link_ranges_frame [OF p1] c2 link_events_frame [OF p3]
  have "constraints t3 = constraints tml" by simp
  with link_constraints_Inr [OF p5] res
  show "constraints tml' = constraints tml @
       concat (map (\<lambda>rg. if cls rg = CharacterClass
                          then concat (map (\<lambda>par. [born_after (Range.name rg) par,
                                                    born_predeath (Range.name rg) par])
                                         [k. Obj k \<leftarrow> parents rg])
                          else []) (map snd (ranges tml')))"
    by simp
qed (simp_all add: born_after_def born_predeath_def new_Constraint_def)

theorem link_parent_constraints_witness:
  "\<exists>tml'. link one_parent = Inr (tml', [ParentLinkFailed ''Kid'' [Name ''Ghost'']]) \<and>
     map (parents \<circ> snd) (ranges tml') = [[], [Obj ''Mum'']] \<and>
     constraints tml' = [born_after ''Kid'' ''Mum'', born_predeath ''Kid'' ''Mum'']"
proof -
  obtain tml' where l: "link one_parent = Inr (tml', [ParentLinkFailed ''Kid'' [Name ''Ghost'']])"
    and r: "map snd (ranges tml') =
      [(new_Range CharacterClass ''Mum'')\<lparr>Range.idx := Some 0\<rparr>,
       (new_Range CharacterClass ''Kid'')\<lparr>parents := [Obj ''Mum''], Range.idx := Some 1\<rparr>]"
    by (simp add: link_def one_parent_def bind_w_def new_Timeline_def new_Range_def upt_2
      link_method_def Character_link_def Range_link_def resolve_def unresolved_def warn_def
      cull_events_def)
  from link_parent_constraints [THEN conjunct1, rule_format, OF l]
  have "constraints tml' = [born_after ''Kid'' ''Mum'', born_predeath ''Kid'' ''Mum'']"
    by (simp add: r one_parent_def new_Timeline_def new_Range_def)
  moreover from r have "map (parents \<circ> snd) (ranges tml') = [[], [Obj ''Mum'']]"
    by (simp add: new_Range_def flip: map_map)
  ultimately show ?thesis using l by (intro exI [of _ tml']) simp
qed

lemma link_ranges_length:
  "link_ranges js tml = Inr (tml', ws) \<Longrightarrow> length (ranges tml') = length (ranges tml)"
  using link_ranges_frame [of js tml tml' ws] by (metis length_map)

lemma link_ranges_point:
  "link_ranges js tml = Inr (tml', ws) \<Longrightarrow> i < length (ranges tml) \<Longrightarrow>
     cls (snd (ranges tml' ! i)) = cls (snd (ranges tml ! i)) \<and>
     (i \<notin> set js \<longrightarrow> ranges tml' ! i = ranges tml ! i) \<and>
     (i \<in> set js \<longrightarrow>
        Range.idx (snd (ranges tml' ! i)) = Some i \<and>
        (cls (snd (ranges tml ! i)) = CharacterClass \<longrightarrow>
           list_all is_Obj (parents (snd (ranges tml' ! i))) \<and>
           (list_all is_Obj (parents (snd (ranges tml ! i))) \<longrightarrow>
              parents (snd (ranges tml' ! i)) = [])))"
proof (induction js arbitrary: tml ws)
  case Nil
  then show ?case by simp
next
  case (Cons j js)
  let ?mid = "\<lambda>rg'. tml\<lparr>ranges := (ranges tml)[j := (fst (ranges tml ! j), rg'\<lparr>Range.idx := Some j\<rparr>)]\<rparr>"
  from Cons.prems(1) obtain rg' w1 w2 where
    m: "link_method (snd (ranges tml ! j)) tml = Inr (rg', w1)" and
    r: "link_ranges js (?mid rg') = Inr (tml', w2)"
    by (auto simp: warn_def split: sum.splits prod.splits)
  note f = link_method_fields [OF m]
  have len: "i < length (ranges (?mid rg'))" using Cons.prems(2) by simp
  note ih = Cons.IH [OF r len]
  show ?case
  proof (cases "i = j")
    case True
    have mid: "snd (ranges (?mid rg') ! i) = rg'\<lparr>Range.idx := Some j\<rparr>"
      using True Cons.prems(2) by simp
    have po: "cls (snd (ranges tml ! i)) = CharacterClass \<Longrightarrow> list_all is_Obj (parents rg')"
      using f True by (simp add: resolve_Obj)
    have pe: "cls (snd (ranges tml ! i)) = CharacterClass \<Longrightarrow>
        list_all is_Obj (parents (snd (ranges tml ! i))) \<Longrightarrow> parents rg' = []"
      using f True by (simp add: resolve_of_Obj)
    show ?thesis
    proof (cases "i \<in> set js")
      case True
      with ih mid f \<open>i = j\<close> po show ?thesis by auto
    next
      case False
      with ih have "ranges tml' ! i = ranges (?mid rg') ! i" by simp
      with mid f \<open>i = j\<close> po pe show ?thesis by auto
    qed
  next
    case False
    then have "ranges (?mid rg') ! i = ranges tml ! i" by simp
    with ih False show ?thesis by auto
  qed
qed


lemma link_events_point:
  "link_events js tml = Inr (tml', ws) \<Longrightarrow> i < length (events tml) \<Longrightarrow>
     (events tml' ! i)\<lparr>from_rg := [], with_rg := []\<rparr> =
       (events tml ! i)\<lparr>from_rg := [], with_rg := []\<rparr> \<and>
     (i \<notin> set js \<longrightarrow> events tml' ! i = events tml ! i) \<and>
     (i \<in> set js \<longrightarrow>
        list_all is_Obj (from_rg (events tml' ! i)) \<and>
        list_all is_Obj (with_rg (events tml' ! i)) \<and>
        (list_all is_Obj (from_rg (events tml ! i)) \<longrightarrow> from_rg (events tml' ! i) = []) \<and>
        (list_all is_Obj (with_rg (events tml ! i)) \<longrightarrow> with_rg (events tml' ! i) = []))"
proof (induction js arbitrary: tml ws)
  case Nil
  then show ?case by simp
next
  case (Cons j js)
  from Cons.prems(1) obtain t1 w1 w2 where
    e: "Event_link j tml = Inr (t1, w1)" and r: "link_events js t1 = Inr (tml', w2)"
    by (auto simp: warn_def split: sum.splits prod.splits)
  from Event_link_frame [OF e] have
    ev1: "events t1 = (events tml)[j := (events tml ! j)
        \<lparr>from_rg := resolve (ranges tml) (from_rg (events tml ! j)),
         with_rg := resolve (ranges tml) (with_rg (events tml ! j))\<rparr>]" by simp
  have len: "i < length (events t1)" using ev1 Cons.prems(2) by simp
  note ih = Cons.IH [OF r len]
  show ?case
  proof (cases "i = j")
    case True
    have mid: "events t1 ! i = (events tml ! i)
        \<lparr>from_rg := resolve (ranges tml) (from_rg (events tml ! i)),
         with_rg := resolve (ranges tml) (with_rg (events tml ! i))\<rparr>"
      using True ev1 Cons.prems(2) by simp
    have o: "list_all is_Obj (from_rg (events t1 ! i))" "list_all is_Obj (with_rg (events t1 ! i))"
      using mid by (simp_all add: resolve_Obj)
    have ef: "list_all is_Obj (from_rg (events tml ! i)) \<Longrightarrow> from_rg (events t1 ! i) = []"
      using mid by (simp add: resolve_of_Obj)
    have ew: "list_all is_Obj (with_rg (events tml ! i)) \<Longrightarrow> with_rg (events t1 ! i) = []"
      using mid by (simp add: resolve_of_Obj)
    have c: "(events t1 ! i)\<lparr>from_rg := [], with_rg := []\<rparr> =
        (events tml ! i)\<lparr>from_rg := [], with_rg := []\<rparr>" using mid by simp
    show ?thesis
    proof (cases "i \<in> set js")
      case True
      with ih c o \<open>i = j\<close> show ?thesis by auto
    next
      case False
      with ih have "events tml' ! i = events t1 ! i" by simp
      with c o ef ew \<open>i = j\<close> show ?thesis by auto
    qed
  next
    case False
    then have "events t1 ! i = events tml ! i" using ev1 by simp
    with ih False show ?thesis by auto
  qed
qed

lemma number_universal_unidx:
  "map (\<lambda>e. e\<lparr>Event.idx := None\<rparr>) (fst (number_universal es n)) =
     map (\<lambda>e. e\<lparr>Event.idx := None\<rparr>) es"
proof (induction es arbitrary: n)
  case Nil
  show ?case by simp
next
  case (Cons a es)
  show ?case
  proof (cases "is_universal a")
    case True
    obtain r m where nu: "number_universal es (Suc n) = (r, m)"
      by (cases "number_universal es (Suc n)")
    with Cons [of "Suc n"] True show ?thesis by simp
  next
    case False
    obtain r m where nu: "number_universal es n = (r, m)"
      by (cases "number_universal es n")
    with Cons [of n] False show ?thesis by simp
  qed
qed

lemma cull_events_sorted:
  "cull_events tml = Inr (tml', ws) \<Longrightarrow>
     ranges tml' = ranges tml \<and> constraints tml' = constraints tml \<and>
     list_all is_valid_Event (events tml') \<and>
     sorted (map (\<lambda>ev. the (time ev)) (events tml'))"
  by (auto simp: cull_events_def Let_def list_all_iff)

lemma cull_events_id:
  "list_all is_valid_Event (events tml) \<Longrightarrow>
   sorted (map (\<lambda>ev. the (time ev)) (events tml)) \<Longrightarrow>
     cull_events tml = Inr (tml, [])"
proof -
  assume v: "list_all is_valid_Event (events tml)"
    and srt: "sorted (map (\<lambda>ev. the (time ev)) (events tml))"
  from v have "filter is_valid_Event (events tml) = events tml"
    by (simp add: list_all_iff)
  moreover from srt have "sort_key (\<lambda>ev. the (time ev)) (events tml) = events tml"
    by (rule sort_key_id_if_sorted)
  ultimately show ?thesis by (simp add: cull_events_def Let_def)
qed

lemma list_all_nth: "(\<And>i. i < length xs \<Longrightarrow> P (xs ! i)) \<Longrightarrow> list_all P xs"
  by (simp add: list_all_length)

lemma list_all_nthD: "list_all P xs \<Longrightarrow> i < length xs \<Longrightarrow> P (xs ! i)"
  by (simp add: list_all_length)

lemma link_ranges_all:
  assumes "link_ranges [0..<length (ranges tml)] tml = Inr (tml', ws)"
  shows "map (Range.idx \<circ> snd) (ranges tml') = map Some [0..<length (ranges tml)]"
    and "list_all (\<lambda>rg. cls rg = CharacterClass \<longrightarrow> list_all is_Obj (parents rg))
           (map snd (ranges tml'))"
    and "list_all (\<lambda>rg. cls rg = CharacterClass \<longrightarrow> list_all is_Obj (parents rg))
           (map snd (ranges tml)) \<Longrightarrow>
         list_all (\<lambda>rg. cls rg = CharacterClass \<longrightarrow> parents rg = []) (map snd (ranges tml'))"
proof -
  note len = link_ranges_length [OF assms]
  note pt = link_ranges_point [OF assms]
  show "map (Range.idx \<circ> snd) (ranges tml') = map Some [0..<length (ranges tml)]"
    using len pt by (intro nth_equalityI) auto
  show "list_all (\<lambda>rg. cls rg = CharacterClass \<longrightarrow> list_all is_Obj (parents rg))
           (map snd (ranges tml'))"
  proof (rule list_all_nth)
    fix i assume "i < length (map snd (ranges tml'))"
    then have i: "i < length (ranges tml)" using len by simp
    from pt [OF i] i len
    show "cls (map snd (ranges tml') ! i) = CharacterClass \<longrightarrow>
        list_all is_Obj (parents (map snd (ranges tml') ! i))" by simp
  qed
  show "list_all (\<lambda>rg. cls rg = CharacterClass \<longrightarrow> parents rg = []) (map snd (ranges tml'))"
    if h: "list_all (\<lambda>rg. cls rg = CharacterClass \<longrightarrow> list_all is_Obj (parents rg))
           (map snd (ranges tml))"
  proof (rule list_all_nth)
    fix i assume "i < length (map snd (ranges tml'))"
    then have i: "i < length (ranges tml)" using len by simp
    from list_all_nthD [OF h, of i] i
    have "cls (snd (ranges tml ! i)) = CharacterClass \<longrightarrow>
        list_all is_Obj (parents (snd (ranges tml ! i)))" by simp
    with pt [OF i] i len
    show "cls (map snd (ranges tml') ! i) = CharacterClass \<longrightarrow>
        parents (map snd (ranges tml') ! i) = []" by simp
  qed
qed

lemma link_events_all:
  assumes "link_events [0..<length (events tml)] tml = Inr (tml', ws)"
  shows "map (\<lambda>e. e\<lparr>from_rg := [], with_rg := []\<rparr>) (events tml') =
         map (\<lambda>e. e\<lparr>from_rg := [], with_rg := []\<rparr>) (events tml)"
    and "list_all (\<lambda>ev. list_all is_Obj (from_rg ev) \<and> list_all is_Obj (with_rg ev)) (events tml')"
    and "list_all (\<lambda>ev. list_all is_Obj (from_rg ev) \<and> list_all is_Obj (with_rg ev)) (events tml) \<Longrightarrow>
         list_all (\<lambda>ev. from_rg ev = [] \<and> with_rg ev = []) (events tml')"
proof -
  from link_events_frame [OF assms] have len: "length (events tml') = length (events tml)" by simp
  note pt = link_events_point [OF assms]
  show "map (\<lambda>e. e\<lparr>from_rg := [], with_rg := []\<rparr>) (events tml') =
         map (\<lambda>e. e\<lparr>from_rg := [], with_rg := []\<rparr>) (events tml)"
    using len pt by (intro nth_equalityI) auto
  show "list_all (\<lambda>ev. list_all is_Obj (from_rg ev) \<and> list_all is_Obj (with_rg ev)) (events tml')"
  proof (rule list_all_nth)
    fix i assume "i < length (events tml')"
    then have i: "i < length (events tml)" using len by simp
    from pt [OF i] i
    show "list_all is_Obj (from_rg (events tml' ! i)) \<and> list_all is_Obj (with_rg (events tml' ! i))"
      by simp
  qed
  show "list_all (\<lambda>ev. from_rg ev = [] \<and> with_rg ev = []) (events tml')"
    if h: "list_all (\<lambda>ev. list_all is_Obj (from_rg ev) \<and> list_all is_Obj (with_rg ev)) (events tml)"
  proof (rule list_all_nth)
    fix i assume "i < length (events tml')"
    then have i: "i < length (events tml)" using len by simp
    from list_all_nthD [OF h i] pt [OF i] i
    show "from_rg (events tml' ! i) = [] \<and> with_rg (events tml' ! i) = []" by simp
  qed
qed


lemma map_through:
  assumes "\<And>x. f x = h (g x)" and "map g xs = map g ys"
  shows "map f xs = map f ys"
proof -
  have "map f xs = map h (map g xs)" using assms(1) by simp
  also have "\<dots> = map h (map g ys)" using assms(2) by simp
  also have "\<dots> = map f ys" using assms(1) by simp
  finally show ?thesis .
qed

lemma list_all_through:
  assumes "\<And>x. P x = Q (g x)" and "map g xs = map g ys"
  shows "list_all P xs = list_all P ys"
proof -
  from assms(2) have "length xs = length ys" by (rule map_eq_imp_length_eq)
  then show ?thesis using assms(2)
  proof (induction xs ys rule: list_induct2)
    case Nil
    show ?case by simp
  next
    case (Cons x xs y ys)
    then have "g x = g y" and "map g xs = map g ys" by simp_all
    with Cons.IH assms(1) [of x] assms(1) [of y] show ?case by simp
  qed
qed

lemma unlinked_simps:
  "time (unlinked e) = time e" "is_valid_Event (unlinked e) = is_valid_Event e"
  "unlinked (e\<lparr>Event.idx := None\<rparr>) = unlinked e"
  "unlinked (e\<lparr>from_rg := [], with_rg := []\<rparr>) = unlinked e"
  by (simp_all add: unlinked_def is_valid_Event_def)

lemma link_post:
  assumes "link tml = Inr (t1, w1)"
  shows "map fst (ranges t1) = map fst (ranges tml)"
    and "map (Range.idx \<circ> snd) (ranges t1) = map Some [0..<length (ranges tml)]"
    and "refs_linked t1"
    and "list_all is_valid_Event (events t1)"
    and "sorted (map (\<lambda>ev. the (time ev)) (events t1))"
    and "map unlinked (events t1) =
           map unlinked (sort_key (\<lambda>ev. the (time ev)) (filter is_valid_Event (events tml)))"
    and "refs_linked tml \<Longrightarrow>
           list_all (\<lambda>rg. cls rg = CharacterClass \<longrightarrow> parents rg = []) (map snd (ranges t1)) \<and>
           list_all (\<lambda>ev. from_rg ev = [] \<and> with_rg ev = []) (events t1)"
proof -
  from assms obtain a1 v1 a2 v2 a3 v3 revd n cs where
    p1: "link_ranges [0..<length (ranges tml)] tml = Inr (a1, v1)" and
    p2: "cull_events a1 = Inr (a2, v2)" and
    p3: "link_events [0..<length (events a2)] a2 = Inr (a3, v3)" and
    p4: "number_universal (rev (events a3)) 0 = (revd, n)" and
    res: "t1 = a3\<lparr>events := rev revd, universal_evs := Some n,
                         constraints := constraints a3 @ cs\<rparr>"
    by (auto simp: link_def bind_w_def split: sum.splits prod.splits)
  define hc where "hc = (\<lambda>p :: string \<times> Range. (snd p)\<lparr>hanging_events := []\<rparr>)"
  note f1 = link_ranges_frame [OF p1]
  note c2 = cull_events_sorted [OF p2]
  note f3 = link_events_frame [OF p3]
  have rg32: "map hc (ranges a3) = map hc (ranges a2)" using f3 by (simp add: hc_def)
  have r1: "ranges t1 = ranges a3" using res by simp
  have e2: "events a2 = sort_key (\<lambda>ev. the (time ev)) (filter is_valid_Event (events tml))"
    using p2 f1 by (auto simp: cull_events_def Let_def)
  show "map fst (ranges t1) = map fst (ranges tml)" using r1 f1 c2 f3 by simp
  have "map (Range.idx \<circ> snd) (ranges a3) = map (Range.idx \<circ> snd) (ranges a2)"
    by (rule map_through [where h = Range.idx, OF _ rg32]) (simp add: hc_def)
  with link_ranges_all(1) [OF p1] c2 r1
  show "map (Range.idx \<circ> snd) (ranges t1) = map Some [0..<length (ranges tml)]" by simp
  have unidx: "map (\<lambda>e. e\<lparr>Event.idx := None\<rparr>) (events t1) =
      map (\<lambda>e. e\<lparr>Event.idx := None\<rparr>) (events a3)"
    using number_universal_unidx [of "rev (events a3)" 0] p4 res
    by (simp add: rev_map [symmetric])
  have ev13: "map unlinked (events t1) = map unlinked (events a3)"
    by (rule map_through [where h = unlinked, OF _ unidx]) (simp add: unlinked_def)
  have ev32: "map unlinked (events a3) = map unlinked (events a2)"
    by (rule map_through [where h = unlinked, OF _ link_events_all(1) [OF p3]])
      (simp add: unlinked_def)
  have ev12: "map unlinked (events t1) = map unlinked (events a2)" using ev13 ev32 by simp
  then show "map unlinked (events t1) =
           map unlinked (sort_key (\<lambda>ev. the (time ev)) (filter is_valid_Event (events tml)))"
    using e2 by simp
  have "list_all is_valid_Event (events t1) = list_all is_valid_Event (events a2)"
    by (rule list_all_through [where Q = is_valid_Event, OF _ ev12]) (simp add: unlinked_simps)
  with c2 show "list_all is_valid_Event (events t1)" by simp
  have "map (\<lambda>ev. the (time ev)) (events t1) = map (\<lambda>ev. the (time ev)) (events a2)"
    by (rule map_through [where h = "\<lambda>ev. the (time ev)", OF _ ev12]) (simp add: unlinked_simps)
  with c2 show "sorted (map (\<lambda>ev. the (time ev)) (events t1))" by simp
  have par: "list_all P (map snd (ranges t1)) = list_all P (map snd (ranges a1))"
    if "\<And>rg. P (rg\<lparr>hanging_events := []\<rparr>) = P rg" for P
  proof -
    have "list_all (P \<circ> snd) (ranges a3) = list_all (P \<circ> snd) (ranges a2)"
      by (rule list_all_through [where Q = P, OF _ rg32]) (simp add: hc_def that)
    then show ?thesis using r1 c2 by (simp add: list.pred_map)
  qed
  have evq: "list_all Q (events t1) = list_all Q (events a3)"
    if "\<And>e. Q (e\<lparr>Event.idx := None\<rparr>) = Q e" for Q
    by (rule list_all_through [where Q = Q, OF _ unidx]) (simp add: that)
  have "list_all (\<lambda>rg. cls rg = CharacterClass \<longrightarrow> list_all is_Obj (parents rg))
           (map snd (ranges t1))"
    using link_ranges_all(2) [OF p1] by (subst par) simp_all
  moreover have "list_all (\<lambda>ev. list_all is_Obj (from_rg ev) \<and> list_all is_Obj (with_rg ev)) (events t1)"
    using link_events_all(2) [OF p3] by (subst evq) simp_all
  ultimately show "refs_linked t1" by (simp add: refs_linked_def)
  show "list_all (\<lambda>rg. cls rg = CharacterClass \<longrightarrow> parents rg = []) (map snd (ranges t1)) \<and>
           list_all (\<lambda>ev. from_rg ev = [] \<and> with_rg ev = []) (events t1)"
    if rl: "refs_linked tml"
  proof
    from rl have "list_all (\<lambda>rg. cls rg = CharacterClass \<longrightarrow> list_all is_Obj (parents rg))
           (map snd (ranges tml))" by (simp add: refs_linked_def)
    from link_ranges_all(3) [OF p1 this]
    show "list_all (\<lambda>rg. cls rg = CharacterClass \<longrightarrow> parents rg = []) (map snd (ranges t1))"
      by (subst par) simp_all
    from rl have "list_all (\<lambda>ev. list_all is_Obj (from_rg ev) \<and> list_all is_Obj (with_rg ev))
        (events tml)" by (simp add: refs_linked_def)
    then have "list_all (\<lambda>ev. list_all is_Obj (from_rg ev) \<and> list_all is_Obj (with_rg ev))
        (events a2)" unfolding e2 by (auto simp: list_all_iff)
    from link_events_all(3) [OF p3 this]
    show "list_all (\<lambda>ev. from_rg ev = [] \<and> with_rg ev = []) (events t1)"
      by (subst evq) simp_all
  qed
qed

lemma link_met:
  "\<exists>t1. link met = Inr (t1, []) \<and>
     map (Range.idx \<circ> snd) (ranges t1) = [Some 0, Some 1] \<and>
     map (parents \<circ> snd) (ranges t1) = [[], [Obj ''Ann'']] \<and>
     map from_rg (events t1) = [[Obj ''Ann'']] \<and> map with_rg (events t1) = [[Obj ''Bob'']] \<and>
     (\<exists>t2 w2. link t1 = Inr (t2, w2) \<and>
        map (Range.idx \<circ> snd) (ranges t2) = [Some 0, Some 1] \<and>
        map (parents \<circ> snd) (ranges t2) = [[], []] \<and>
        map from_rg (events t2) = [[]] \<and> map with_rg (events t2) = [[]])"
  by (simp add: link_def met_def bind_w_def new_Timeline_def new_Range_def new_Event_def upt_2
      link_method_def Character_link_def Range_link_def resolve_def unresolved_def warn_def
      cull_events_def is_valid_Event_def Event_link_def Let_def last_by_idx_def is_universal_def)

text \<open>
  C3, as stated, fails: in a document where every name resolves (the first link warns
  about nothing), the second link empties the parents of Bob and the from and with sets
  of the event, which the first link had resolved.
\<close>

theorem relink_counterexample:
  "\<exists>t1 t2 w2. link met = Inr (t1, []) \<and> link t1 = Inr (t2, w2) \<and>
     map (parents \<circ> snd) (ranges t1) = [[], [Obj ''Ann'']] \<and>
     map from_rg (events t1) = [[Obj ''Ann'']] \<and> map with_rg (events t1) = [[Obj ''Bob'']] \<and>
     map (parents \<circ> snd) (ranges t2) = [[], []] \<and>
     map from_rg (events t2) = [[]] \<and> map with_rg (events t2) = [[]]"
proof -
  from link_met obtain t1 where
    a: "link met = Inr (t1, [])" "map (parents \<circ> snd) (ranges t1) = [[], [Obj ''Ann'']]"
       "map from_rg (events t1) = [[Obj ''Ann'']]" "map with_rg (events t1) = [[Obj ''Bob'']]"
    and e: "\<exists>t2 w2. link t1 = Inr (t2, w2) \<and>
        map (Range.idx \<circ> snd) (ranges t2) = [Some 0, Some 1] \<and>
        map (parents \<circ> snd) (ranges t2) = [[], []] \<and>
        map from_rg (events t2) = [[]] \<and> map with_rg (events t2) = [[]]"
    by (rule exE) (elim conjE, rule that)
  from e obtain t2 w2 where
    b: "link t1 = Inr (t2, w2)" "map (parents \<circ> snd) (ranges t2) = [[], []]"
       "map from_rg (events t2) = [[]]" "map with_rg (events t2) = [[]]"
    by (elim exE conjE) (rule that)
  show ?thesis
    by (intro exI [of _ t1] exI [of _ t2] exI [of _ w2] conjI) (fact a b)+
qed

text \<open>
  C3, amended. Running the link phase a second time does not change any Range's \<open>idx\<close>
  (nor the order of the ranges) and does not change the order or membership of the
  event sequence; the resolved parent, from and with reference sets are not kept: the
  second run leaves every one of them empty.
\<close>

theorem relink:
  "link tml = Inr (t1, w1) \<and> link t1 = Inr (t2, w2) \<longrightarrow>
     map fst (ranges t2) = map fst (ranges t1) \<and>
     map (Range.idx \<circ> snd) (ranges t2) = map (Range.idx \<circ> snd) (ranges t1) \<and>
     map unlinked (events t2) = map unlinked (events t1) \<and>
     list_all (\<lambda>rg. cls rg = CharacterClass \<longrightarrow> parents rg = []) (map snd (ranges t2)) \<and>
     list_all (\<lambda>ev. from_rg ev = [] \<and> with_rg ev = []) (events t2)"
proof
  assume a: "link tml = Inr (t1, w1) \<and> link t1 = Inr (t2, w2)"
  then have l1: "link tml = Inr (t1, w1)" and l2: "link t1 = Inr (t2, w2)" by simp_all
  note p1 = link_post [OF l1]
  note p2 = link_post [OF l2]
  have len: "length (ranges t1) = length (ranges tml)"
    using p1(1) by (rule map_eq_imp_length_eq)
  have "filter is_valid_Event (events t1) = events t1"
    using p1(4) by (simp add: list_all_iff)
  moreover have "sort_key (\<lambda>ev. the (time ev)) (events t1) = events t1"
    using p1(5) by (rule sort_key_id_if_sorted)
  ultimately have ev: "map unlinked (events t2) = map unlinked (events t1)"
    using p2(6) by simp
  from p1(2) p2(2) len
  have "map (Range.idx \<circ> snd) (ranges t2) = map (Range.idx \<circ> snd) (ranges t1)" by simp
  with p2(1) ev p2(7) [OF p1(3)]
  show "map fst (ranges t2) = map fst (ranges t1) \<and>
     map (Range.idx \<circ> snd) (ranges t2) = map (Range.idx \<circ> snd) (ranges t1) \<and>
     map unlinked (events t2) = map unlinked (events t1) \<and>
     list_all (\<lambda>rg. cls rg = CharacterClass \<longrightarrow> parents rg = []) (map snd (ranges t2)) \<and>
     list_all (\<lambda>ev. from_rg ev = [] \<and> with_rg ev = []) (events t2)"
    by simp
qed

theorem relink_witness:
  "\<exists>t1 t2 w2. link met = Inr (t1, []) \<and> link t1 = Inr (t2, w2) \<and>
     map (Range.idx \<circ> snd) (ranges t1) = [Some 0, Some 1] \<and>
     map (Range.idx \<circ> snd) (ranges t2) = map (Range.idx \<circ> snd) (ranges t1) \<and>
     map unlinked (events t2) = map unlinked (events t1) \<and>
     list_all (\<lambda>ev. from_rg ev = [] \<and> with_rg ev = []) (events t2)"
proof -
  from link_met obtain t1 where
    l1: "link met = Inr (t1, [])" and
    i1: "map (Range.idx \<circ> snd) (ranges t1) = [Some 0, Some 1]"
    and e: "\<exists>t2 w2. link t1 = Inr (t2, w2) \<and>
        map (Range.idx \<circ> snd) (ranges t2) = [Some 0, Some 1] \<and>
        map (parents \<circ> snd) (ranges t2) = [[], []] \<and>
        map from_rg (events t2) = [[]] \<and> map with_rg (events t2) = [[]]"
    by (rule exE) (elim conjE, rule that)
  from e obtain t2 w2 where l2: "link t1 = Inr (t2, w2)"
    by (elim exE conjE) (rule that)
  from l1 l2 have h: "link met = Inr (t1, []) \<and> link t1 = Inr (t2, w2)" by simp
  note r = relink [of met t1 "[]" t2 w2, rule_format, OF h]
  show ?thesis
    by (intro exI [of _ t1] exI [of _ t2] exI [of _ w2] conjI)
       (fact l1 l2 i1 r [THEN conjunct2, THEN conjunct1]
          r [THEN conjunct2, THEN conjunct2, THEN conjunct1]
          r [THEN conjunct2, THEN conjunct2, THEN conjunct2, THEN conjunct2])+
qed

section \<open>Exceptions other than the tokenizer's\<close>

text \<open>
  C4. The claim is that nothing but the tokenizer's indentation error is ever raised.
  The script, run on lines that tokenize without error, raises in each of these cases,
  all of them conditions the claim lists as reported or surfaced as data:
  a lone ambient Character (\<open>time_bounds\<close> takes \<open>min\<close> of an empty set while linking:
  \<open>ValueError\<close>); a Character that names an existing parent while the parent has no
  span (linking succeeds, then \<open>check\<close> raises \<open>IndexError\<close> at \<open>rg.spans[idx]\<close> on the
  synthesized constraint); an event without a time next to an ambient range (\<open>min\<close>
  compares \<open>None\<close> with a number: \<open>TypeError\<close>); a constraint whose selector has a span
  index outside the span list (\<open>IndexError\<close>). A block header on the last line raises
  \<open>StopIteration\<close> from \<open>next(tok)\<close>.
\<close>

theorem other_exceptions:
  "main pyfloat pyint d [''char W'', CHR 0x09 # ''ambient''] = Inl (ValueError EmptySequence) \<and>
   main pyfloat pyint (Suc d)
     [''char Mum'', CHR 0x09 # ''gender f'', ''char Kid'', CHR 0x09 # ''parent Mum''] =
     Inl IndexError \<and>
   main (\<lambda>a. if a = ''1'' then Some 1 else if a = ''2'' then Some 2 else None) pyint d
     [''char W'', CHR 0x09 # ''ambient'', ''char A'', CHR 0x09 # ''born 1'', CHR 0x09 # ''died 2'',
      ''event'', CHR 0x09 # ''desc x''] = Inl TypeError \<and>
   main (\<lambda>a. if a = ''1'' then Some 1 else if a = ''2'' then Some 2 else None)
     (\<lambda>a. if a = ''5'' then Some 5 else None) (Suc d)
     [''char A'', CHR 0x09 # ''born 1'', CHR 0x09 # ''died 2'',
      ''constraint c'', CHR 0x09 # ''before A 5 end'', CHR 0x09 # ''after A''] = Inl IndexError \<and>
   main pyfloat pyint d [''char Kid''] = Inl StopIteration"
proof (intro conjI)
  show "main pyfloat pyint d [''char W'', CHR 0x09 # ''ambient''] = Inl (ValueError EmptySequence)"
    by (simp add: main_def tok_simps parse_simps link_simps upt_2)
  show "main pyfloat pyint (Suc d)
     [''char Mum'', CHR 0x09 # ''gender f'', ''char Kid'', CHR 0x09 # ''parent Mum''] =
     Inl IndexError"
    by (simp add: main_def tok_simps parse_simps link_simps check_simps upt_2)
  show "main (\<lambda>a. if a = ''1'' then Some 1 else if a = ''2'' then Some 2 else None) pyint d
     [''char W'', CHR 0x09 # ''ambient'', ''char A'', CHR 0x09 # ''born 1'', CHR 0x09 # ''died 2'',
      ''event'', CHR 0x09 # ''desc x''] = Inl TypeError"
    by (simp add: main_def tok_simps parse_simps link_simps upt_2)
  show "main (\<lambda>a. if a = ''1'' then Some 1 else if a = ''2'' then Some 2 else None)
     (\<lambda>a. if a = ''5'' then Some 5 else None) (Suc d)
     [''char A'', CHR 0x09 # ''born 1'', CHR 0x09 # ''died 2'',
      ''constraint c'', CHR 0x09 # ''before A 5 end'', CHR 0x09 # ''after A''] = Inl IndexError"
    by (simp add: main_def tok_simps parse_simps link_simps check_simps upt_2)
  show "main pyfloat pyint d [''char Kid''] = Inl StopIteration"
    by (simp add: main_def tok_simps parse_simps link_simps upt_2)
qed

end
